theory Spec2Isabelle
  imports Main
begin

section \<open>JavaScript strings and arrays\<close>

text \<open>
  The command-line tool \<^verbatim>\<open>bin/clone.js\<close> works on JavaScript strings and arrays.
  Strings are modelled as \<^typ>\<open>string\<close>, arrays as lists, \<^verbatim>\<open>undefined\<close> as
  \<^term>\<open>None\<close>. Array positions are \<^typ>\<open>int\<close>, because \<^verbatim>\<open>indexOf\<close> and
  \<^verbatim>\<open>findIndex\<close> answer \<open>-1\<close> when nothing is found.
\<close>

fun findIndex :: "('a \<Rightarrow> bool) \<Rightarrow> 'a list \<Rightarrow> int" where
  "findIndex p [] = - 1"
| "findIndex p (x # xs) =
     (if p x then 0
      else (let i = findIndex p xs in if i = - 1 then - 1 else i + 1))"

definition indexOf :: "'a list \<Rightarrow> 'a \<Rightarrow> int" where
  "indexOf xs x = findIndex (\<lambda>y. y = x) xs"

text \<open>\<^verbatim>\<open>xs[i]\<close>: reading outside the array gives \<^verbatim>\<open>undefined\<close>.\<close>

definition at :: "'a list \<Rightarrow> int \<Rightarrow> 'a option" where
  "at xs i = (if 0 \<le> i \<and> i < int (length xs) then Some (xs ! nat i) else None)"

text \<open>\<^verbatim>\<open>xs.slice(a, b)\<close> and \<^verbatim>\<open>xs.slice(a)\<close> for non-negative bounds.\<close>

definition slice :: "'a list \<Rightarrow> int \<Rightarrow> int \<Rightarrow> 'a list" where
  "slice xs a b = take (nat b - nat a) (drop (nat a) xs)"

definition slice_from :: "'a list \<Rightarrow> int \<Rightarrow> 'a list" where
  "slice_from xs a = drop (nat a) xs"

text \<open>\<^verbatim>\<open>xs.filter((_, index) => index !== k)\<close>.\<close>

definition filter_index_neq :: "'a list \<Rightarrow> int \<Rightarrow> 'a list" where
  "filter_index_neq xs k =
     map snd (filter (\<lambda>(i, x). int i \<noteq> k) (zip [0 ..< length xs] xs))"

text \<open>\<^verbatim>\<open>s.split(sep)\<close> for a one-character separator.\<close>

fun split_on :: "char \<Rightarrow> string \<Rightarrow> string list" where
  "split_on sep [] = [[]]"
| "split_on sep (c # cs) =
     (if c = sep then [] # split_on sep cs
      else (case split_on sep cs of
              [] \<Rightarrow> [[c]]
            | x # xs \<Rightarrow> (c # x) # xs))"

text \<open>
  \<^verbatim>\<open>s.toLowerCase()\<close> on the ASCII letters. The segments it is applied to come
  from \<^verbatim>\<open>URL.pathname\<close>, which is ASCII (everything else is percent-encoded).
\<close>

definition lower_char :: "char \<Rightarrow> char" where
  "lower_char c =
     (case map_of (zip ''ABCDEFGHIJKLMNOPQRSTUVWXYZ'' ''abcdefghijklmnopqrstuvwxyz'') c of
        Some l \<Rightarrow> l
      | None \<Rightarrow> c)"

definition toLowerCase :: "string \<Rightarrow> string" where
  "toLowerCase s = map lower_char s"

text \<open>Truthiness of a string that may be \<^verbatim>\<open>undefined\<close>.\<close>

definition truthy_str :: "string option \<Rightarrow> bool" where
  "truthy_str v = (case v of None \<Rightarrow> False | Some s \<Rightarrow> s \<noteq> [])"

section \<open>Resolving the contract reference\<close>

text \<open>The test \<^verbatim>\<open>/^0x[a-fA-F0-9]{40}$/.test(s)\<close>.\<close>

definition is_hex :: "char \<Rightarrow> bool" where
  "is_hex c =
     (let n = (of_char c :: nat)
      in (48 \<le> n \<and> n \<le> 57) \<or> (97 \<le> n \<and> n \<le> 102) \<or> (65 \<le> n \<and> n \<le> 70))"

definition test_address :: "string \<Rightarrow> bool" where
  "test_address s =
     (case s of
        a # b # rest \<Rightarrow>
          a = CHR ''0'' \<and> b = CHR ''x'' \<and> length rest = 40 \<and> list_all is_hex rest
      | _ \<Rightarrow> False)"

text \<open>
  \<^verbatim>\<open>new URL(url)\<close> is a built-in of the platform. It either throws
  \<^verbatim>\<open>ERR_INVALID_URL\<close> or gives an object of which the code reads
  \<^verbatim>\<open>hostname\<close> and \<^verbatim>\<open>pathname\<close>. The parser is a parameter
  \<open>parseURL\<close> of the model: \<^term>\<open>None\<close> stands for the exception.
\<close>

record url =
  hostname :: string
  pathname :: string

text \<open>
  A chain identifier is a name (a string from the command line or from an aggregator
  URL) or a number (a value of the registry \<^verbatim>\<open>chains.json\<close>).
\<close>

datatype chain_ident = ChainName string | ChainId int

definition truthy_chain :: "chain_ident option \<Rightarrow> bool" where
  "truthy_chain v =
     (case v of
        None \<Rightarrow> False
      | Some (ChainName s) \<Rightarrow> s \<noteq> []
      | Some (ChainId n) \<Rightarrow> n \<noteq> 0)"

record resolved =
  contractAddress :: "string option"
  chainId :: "chain_ident option"

text \<open>
  Every exception that leaves \<^verbatim>\<open>tryParseExplorerUrl\<close> is an
  \<^verbatim>\<open>Error("Failed to parse explorer URL: ...")\<close>; the constructors name the
  cause. \<open>RegistryUnreadable\<close> is a failure of reading or parsing
  \<^verbatim>\<open>chains.json\<close>.
\<close>

datatype resolve_error =
    InvalidBlockscanUrl
  | RegistryUnreadable
  | UnsupportedDomain string
  | AddressNotFound

definition pathSegments_of :: "url \<Rightarrow> string list" where
  "pathSegments_of urlObj = filter (\<lambda>s. s \<noteq> []) (split_on CHR ''/'' (pathname urlObj))"

definition is_marker :: "string \<Rightarrow> bool" where
  "is_marker segment = (toLowerCase segment \<in> set [''address'', ''token'', ''contract''])"

text \<open>The branch for \<^verbatim>\<open>vscode.blockscan.com\<close> (lines 21 to 43).\<close>

definition parseBlockscan :: "string list \<Rightarrow> resolve_error + resolved" where
  "parseBlockscan pathSegments =
     (let chainId0 = (if 2 \<le> length pathSegments then at pathSegments 0 else None);
          contractAddress0 =
            (if 2 \<le> length pathSegments \<and> test_address (pathSegments ! 1)
             then at pathSegments 1 else None)
      in if \<not> truthy_str chainId0 \<or> \<not> truthy_str contractAddress0
         then Inl InvalidBlockscanUrl
         else Inr \<lparr>contractAddress = contractAddress0,
                   chainId = map_option ChainName chainId0\<rparr>)"

text \<open>
  The branch for every other host (lines 45 to 82). The registry is the object read
  from \<^verbatim>\<open>chains.json\<close>, a map from host names to chain numbers; \<^term>\<open>None\<close>
  for the whole registry means that the file could not be read.
\<close>

definition parseGeneric ::
  "(string \<rightharpoonup> int) option \<Rightarrow> string \<Rightarrow> string list \<Rightarrow> resolve_error + resolved" where
  "parseGeneric registry domain pathSegments =
     (case registry of
        None \<Rightarrow> Inl RegistryUnreadable
      | Some domainMap \<Rightarrow>
          (let chainId0 = map_option ChainId (domainMap domain)
           in if \<not> truthy_chain chainId0 then Inl (UnsupportedDomain domain)
              else
                (let addressIndex = findIndex is_marker pathSegments;
                     contractAddress0 =
                       (if addressIndex \<noteq> - 1 \<and> truthy_str (at pathSegments (addressIndex + 1))
                        then at pathSegments (addressIndex + 1)
                        else List.find test_address pathSegments)
                 in if \<not> truthy_str contractAddress0 then Inl AddressNotFound
                    else Inr \<lparr>contractAddress = contractAddress0, chainId = chainId0\<rparr>)))"

text \<open>
  \<^verbatim>\<open>tryParseExplorerUrl(url)\<close>. The argument may be \<^verbatim>\<open>undefined\<close>
  (a command line without a contract); \<^verbatim>\<open>new URL(undefined)\<close> parses the
  text \<^verbatim>\<open>undefined\<close>. When the URL parser throws, the argument itself is returned
  as the address, with no chain.
\<close>

definition tryParseExplorerUrl ::
  "(string \<Rightarrow> url option) \<Rightarrow> (string \<rightharpoonup> int) option \<Rightarrow> string option
     \<Rightarrow> resolve_error + resolved" where
  "tryParseExplorerUrl parseURL registry url =
     (case parseURL (case url of None \<Rightarrow> ''undefined'' | Some s \<Rightarrow> s) of
        None \<Rightarrow> Inr \<lparr>contractAddress = url, chainId = None\<rparr>
      | Some urlObj \<Rightarrow>
          (let domain = hostname urlObj;
               pathSegments = pathSegments_of urlObj
           in if domain = ''vscode.blockscan.com'' then parseBlockscan pathSegments
              else parseGeneric registry domain pathSegments))"

section \<open>The command line\<close>

text \<open>
  The object \<^verbatim>\<open>{ chain, contract, outputRoot, merge }\<close> that
  \<^verbatim>\<open>parseArgs\<close> returns.
\<close>

record parsed_args =
  arg_chain :: chain_ident
  arg_contract :: "string option"
  arg_outputRoot :: "string option"
  arg_merge :: bool

definition parseArgs ::
  "(string \<Rightarrow> url option) \<Rightarrow> (string \<rightharpoonup> int) option \<Rightarrow> string list
     \<Rightarrow> resolve_error + parsed_args" where
  "parseArgs parseURL registry args0 =
     (let mergeIndex = max (indexOf args0 ''-m'') (indexOf args0 ''--merge'');
          merge0 = (mergeIndex \<noteq> - 1);
          args = (if mergeIndex \<noteq> - 1 then filter_index_neq args0 mergeIndex else args0);
          updatedChainIndex = indexOf args ''--chain'';
          (chain0, contract0, outputRoot0) =
            (if updatedChainIndex = - 1 then (None, at args 0, at args 1)
             else
               (let remainingArgs =
                      slice args 0 updatedChainIndex @ slice_from args (updatedChainIndex + 2)
                in (at args (updatedChainIndex + 1), at remainingArgs 0, at remainingArgs 1)))
      in case tryParseExplorerUrl parseURL registry contract0 of
           Inl e \<Rightarrow> Inl e
         | Inr parsed \<Rightarrow>
             Inr \<lparr>arg_chain =
                    (if truthy_str chain0 then ChainName (the chain0)
                     else if truthy_chain (chainId parsed) then the (chainId parsed)
                     else ChainName ''ethereum''),
                  arg_contract = contractAddress parsed,
                  arg_outputRoot = outputRoot0,
                  arg_merge = merge0\<rparr>)"

section \<open>Fetching the source\<close>

text \<open>
  The body of the remote response and the value of \<^verbatim>\<open>JSON.parse\<close> are JSON
  values. A number is kept as the text that JavaScript's \<^verbatim>\<open>String\<close> gives for
  it, which is all the code can observe of it; \<^verbatim>\<open>undefined\<close> is \<^term>\<open>None\<close>.
\<close>

datatype json =
    JNull
  | JBool bool
  | JNum string
  | JStr string
  | JArr "json list"
  | JObj "(string \<times> json) list"

definition truthy :: "json option \<Rightarrow> bool" where
  "truthy v =
     (case v of
        None \<Rightarrow> False
      | Some JNull \<Rightarrow> False
      | Some (JBool b) \<Rightarrow> b
      | Some (JNum n) \<Rightarrow> n \<noteq> ''0''
      | Some (JStr s) \<Rightarrow> s \<noteq> []
      | Some (JArr xs) \<Rightarrow> True
      | Some (JObj kvs) \<Rightarrow> True)"

text \<open>\<^verbatim>\<open>xs.join(sep)\<close> on an array of strings.\<close>

fun join_with :: "string \<Rightarrow> string list \<Rightarrow> string" where
  "join_with sep [] = []"
| "join_with sep [x] = x"
| "join_with sep (x # y # ys) = x @ sep @ join_with sep (y # ys)"

text \<open>
  \<^verbatim>\<open>String(v)\<close>, the conversion behind template literals and behind the argument
  of \<^verbatim>\<open>JSON.parse\<close>. An array joins its elements with commas, \<^verbatim>\<open>null\<close>
  elements as empty text.
\<close>

fun to_string :: "json \<Rightarrow> string" where
  "to_string JNull = ''null''"
| "to_string (JBool b) = (if b then ''true'' else ''false'')"
| "to_string (JNum n) = n"
| "to_string (JStr s) = s"
| "to_string (JArr xs) =
     join_with '','' (map (\<lambda>x. if x = JNull then [] else to_string x) xs)"
| "to_string (JObj kvs) = ''[object Object]''"

definition to_string_opt :: "json option \<Rightarrow> string" where
  "to_string_opt v = (case v of None \<Rightarrow> ''undefined'' | Some x \<Rightarrow> to_string x)"

text \<open>
  Reading a property \<^verbatim>\<open>v.name\<close> of a value that is not \<^verbatim>\<open>null\<close>, for the
  names the code reads (none of them is a built-in property of a string, a number, a
  boolean or an array): an object gives its own property, everything else
  \<^verbatim>\<open>undefined\<close>. Reading a property of \<^verbatim>\<open>null\<close> throws; the callers below
  test for it.
\<close>

definition get_prop :: "json \<Rightarrow> string \<Rightarrow> json option" where
  "get_prop v name = (case v of JObj kvs \<Rightarrow> map_of kvs name | _ \<Rightarrow> None)"

datatype fetch_error = NullResponse | NoSourceFound

record source_bundle =
  contractName :: "json option"
  sources :: "json option"
  remappings :: "json option"

text \<open>
  The object returned from the \<^verbatim>\<open>catch\<close> branch of \<^verbatim>\<open>fetchSource\<close>:
  one entry named \<^verbatim>\<open>`${contractName}.${ext}`\<close> holding the payload.
\<close>

definition synthetic_bundle :: "json option \<Rightarrow> json option \<Rightarrow> json \<Rightarrow> source_bundle" where
  "synthetic_bundle name ext source =
     \<lparr>contractName = name,
      sources = Some (JObj [(to_string_opt name @ ''.'' @ to_string_opt ext,
                             JObj [(''content'', source)])]),
      remappings = None\<rparr>"

text \<open>
  \<^verbatim>\<open>fetchSource\<close> from line 139 on: \<open>api\<close> is the body of the response.
  \<^verbatim>\<open>JSON.parse\<close> is a parameter, \<^term>\<open>None\<close> when it throws. When it gives
  \<^verbatim>\<open>null\<close>, reading \<^verbatim>\<open>result.sources\<close> throws inside the same
  \<^verbatim>\<open>try\<close>, so that case ends in the \<^verbatim>\<open>catch\<close> branch too.
\<close>

text \<open>
  Lines 140 to 142: the three values come from the proxy fields when
  \<^verbatim>\<open>api.proxyAddress\<close> is truthy, and from the direct fields otherwise.
\<close>

definition select_fields :: "json \<Rightarrow> json option \<times> json option \<times> json option" where
  "select_fields api =
     (if truthy (get_prop api ''proxyAddress'')
      then (get_prop api ''proxyResult'', get_prop api ''proxyContractName'',
            get_prop api ''proxyExt'')
      else (get_prop api ''result'', get_prop api ''contractName'', get_prop api ''ext''))"

definition fetchSource :: "(string \<Rightarrow> json option) \<Rightarrow> json \<Rightarrow> fetch_error + source_bundle" where
  "fetchSource JSON_parse api =
     (if api = JNull then Inl NullResponse
      else
        (case select_fields api of
           (source, name, ext) \<Rightarrow>
             if \<not> truthy source then Inl NoSourceFound
             else
               (case JSON_parse (to_string_opt source) of
                  None \<Rightarrow> Inr (synthetic_bundle name ext (the source))
                | Some result \<Rightarrow>
                    if result = JNull then Inr (synthetic_bundle name ext (the source))
                    else
                      Inr \<lparr>contractName = name,
                           sources = get_prop result ''sources'',
                           remappings =
                             (case get_prop result ''settings'' of
                                None \<Rightarrow> None
                              | Some settings \<Rightarrow>
                                  if settings = JNull then None
                                  else get_prop settings ''remappings'')\<rparr>)))"

section \<open>Paths and the file system\<close>

subsection \<open>\<^verbatim>\<open>path.join\<close> and \<^verbatim>\<open>path.dirname\<close>\<close>

text \<open>
  The two functions of Node's \<^verbatim>\<open>path\<close> module that the code calls, in their
  POSIX form. \<^verbatim>\<open>normalize\<close> drops empty and \<^verbatim>\<open>.\<close> segments and resolves
  \<^verbatim>\<open>..\<close> against the segment before it; a relative path keeps the
  \<^verbatim>\<open>..\<close> segments it cannot resolve.
\<close>

fun norm_segs :: "bool \<Rightarrow> string list \<Rightarrow> string list \<Rightarrow> string list" where
  "norm_segs allowAboveRoot res [] = res"
| "norm_segs allowAboveRoot res (s # ss) =
     (if s = [] \<or> s = ''.'' then norm_segs allowAboveRoot res ss
      else if s = ''..'' then
        (if res \<noteq> [] \<and> last res \<noteq> ''..'' then norm_segs allowAboveRoot (butlast res) ss
         else if allowAboveRoot then norm_segs allowAboveRoot (res @ [''..'']) ss
         else norm_segs allowAboveRoot res ss)
      else norm_segs allowAboveRoot (res @ [s]) ss)"

definition is_absolute :: "string \<Rightarrow> bool" where
  "is_absolute p = (case p of [] \<Rightarrow> False | c # cs \<Rightarrow> c = CHR ''/'')"

definition path_normalize :: "string \<Rightarrow> string" where
  "path_normalize p =
     (if p = [] then ''.''
      else
        (let trailingSeparator = (last p = CHR ''/'');
             q = join_with ''/'' (norm_segs (\<not> is_absolute p) [] (split_on CHR ''/'' p))
         in if q = [] then
              (if is_absolute p then ''/'' else if trailingSeparator then ''./'' else ''.'')
            else (if is_absolute p then ''/'' else []) @ q
                   @ (if trailingSeparator then ''/'' else [])))"

definition path_join :: "string \<Rightarrow> string \<Rightarrow> string" where
  "path_join a b =
     (let parts = filter (\<lambda>s. s \<noteq> []) [a, b]
      in if parts = [] then ''.'' else path_normalize (join_with ''/'' parts))"

definition path_dirname :: "string \<Rightarrow> string" where
  "path_dirname p =
     (if p = [] then ''.''
      else
        (let r = dropWhile (\<lambda>c. c \<noteq> CHR ''/'')
                   (dropWhile (\<lambda>c. c = CHR ''/'') (rev (tl p)))
         in if r = [] then (if is_absolute p then ''/'' else ''.'')
            else if is_absolute p \<and> length r = 1 then ''//''
            else take (length r) p))"

subsection \<open>The file system\<close>

text \<open>
  A file system is the working directory of the process and a table from absolute
  paths (lists of names, the root being the empty list) to nodes. Symbolic links and
  permissions are not modelled, and a trailing separator is ignored. The calls that
  create, write and read files get paths that \<^verbatim>\<open>path.join\<close> has normalised, and
  resolve them with \<open>resolve\<close>; \<^verbatim>\<open>readdir\<close> gets the destination as the user
  typed it and walks it name by name (\<open>walk_dirs\<close> below).
\<close>

datatype errno = ENOENT | EEXIST | ENOTDIR | EISDIR

datatype node = File string | Dir

record fs =
  cwd :: "string list"
  nodes :: "(string list \<times> node) list"

fun walk :: "string list \<Rightarrow> string list \<Rightarrow> string list" where
  "walk cur [] = cur"
| "walk cur (c # cs) =
     (if c = ''.'' then walk cur cs
      else if c = ''..'' then walk (butlast cur) cs
      else walk (cur @ [c]) cs)"

definition resolve :: "fs \<Rightarrow> string \<Rightarrow> string list" where
  "resolve s p =
     walk (if is_absolute p then [] else cwd s)
       (filter (\<lambda>c. c \<noteq> []) (split_on CHR ''/'' p))"

definition lookup :: "fs \<Rightarrow> string list \<Rightarrow> node option" where
  "lookup s k = (if k = [] then Some Dir else map_of (nodes s) k)"

text \<open>
  Going down from the directory \<open>cur\<close> along the names \<open>rest\<close>: a missing name
  is \<open>ENOENT\<close>, a file on the way is \<open>ENOTDIR\<close>.
\<close>

fun traverse :: "fs \<Rightarrow> string list \<Rightarrow> string list \<Rightarrow> errno + node" where
  "traverse s cur [] = (case lookup s cur of None \<Rightarrow> Inl ENOENT | Some n \<Rightarrow> Inr n)"
| "traverse s cur (c # cs) =
     (case lookup s cur of
        None \<Rightarrow> Inl ENOENT
      | Some (File d) \<Rightarrow> Inl ENOTDIR
      | Some Dir \<Rightarrow> traverse s (cur @ [c]) cs)"

definition stat :: "fs \<Rightarrow> string list \<Rightarrow> errno + node" where
  "stat s k = traverse s [] k"

definition add_node :: "string list \<Rightarrow> node \<Rightarrow> fs \<Rightarrow> fs" where
  "add_node k n s = s\<lparr>nodes := nodes s @ [(k, n)]\<rparr>"

text \<open>
  The path resolution of the system call behind \<^verbatim>\<open>readdir\<close>: the names are
  followed one by one from the working directory (or from the root), and a name can only
  be followed from a directory that exists. So \<^verbatim>\<open>missing/../out\<close> is
  \<open>ENOENT\<close> when there is no \<^verbatim>\<open>missing\<close>, whatever \<^verbatim>\<open>out\<close> is.
\<close>

fun walk_dirs :: "fs \<Rightarrow> string list \<Rightarrow> string list \<Rightarrow> errno + string list" where
  "walk_dirs s cur [] = Inr cur"
| "walk_dirs s cur (c # cs) =
     (case stat s cur of
        Inl e \<Rightarrow> Inl e
      | Inr (File d) \<Rightarrow> Inl ENOTDIR
      | Inr Dir \<Rightarrow>
          if c = ''.'' then walk_dirs s cur cs
          else if c = ''..'' then walk_dirs s (butlast cur) cs
          else walk_dirs s (cur @ [c]) cs)"

text \<open>Opening the directory at a path: the place of the directory, or the error.\<close>

definition opendir :: "fs \<Rightarrow> string \<Rightarrow> errno + string list" where
  "opendir s p =
     (if p = [] then Inl ENOENT
      else
        (case walk_dirs s (if is_absolute p then [] else cwd s)
                (filter (\<lambda>c. c \<noteq> []) (split_on CHR ''/'' p)) of
           Inl e \<Rightarrow> Inl e
         | Inr k \<Rightarrow>
             (case stat s k of
                Inl e \<Rightarrow> Inl e
              | Inr (File d) \<Rightarrow> Inl ENOTDIR
              | Inr Dir \<Rightarrow> Inr k)))"

text \<open>\<^verbatim>\<open>readdir(p)\<close>: the names of all entries of the directory, hidden ones too.\<close>

definition readdir :: "fs \<Rightarrow> string \<Rightarrow> errno + string list" where
  "readdir s p =
     (case opendir s p of
        Inl e \<Rightarrow> Inl e
      | Inr d \<Rightarrow>
          Inr (map (\<lambda>(k, n). last k)
                 (filter (\<lambda>(k, n). k \<noteq> [] \<and> butlast k = d) (nodes s))))"

text \<open>\<^verbatim>\<open>readFile(p, "utf8")\<close>.\<close>

definition readFile :: "fs \<Rightarrow> string \<Rightarrow> errno + string" where
  "readFile s p =
     (case stat s (resolve s p) of
        Inl e \<Rightarrow> Inl e
      | Inr Dir \<Rightarrow> Inl EISDIR
      | Inr (File d) \<Rightarrow> Inr d)"

text \<open>
  \<^verbatim>\<open>mkdir(p, {recursive: true})\<close>: existing directories are kept, missing ones
  are created from the top; a file in the way is an error, and the directories made
  before it stay.
\<close>

fun mkdirs :: "string list \<Rightarrow> string list \<Rightarrow> fs \<Rightarrow> errno option \<times> fs" where
  "mkdirs cur [] s = (None, s)"
| "mkdirs cur (c # cs) s =
     (case lookup s (cur @ [c]) of
        Some Dir \<Rightarrow> mkdirs (cur @ [c]) cs s
      | Some (File d) \<Rightarrow> (Some (if cs = [] then EEXIST else ENOTDIR), s)
      | None \<Rightarrow> mkdirs (cur @ [c]) cs (add_node (cur @ [c]) Dir s))"

definition mkdir_recursive :: "string \<Rightarrow> fs \<Rightarrow> errno option \<times> fs" where
  "mkdir_recursive p s = mkdirs [] (resolve s p) s"

text \<open>
  \<^verbatim>\<open>writeFile(p, data, {flag: "wx"})\<close>: exclusive creation. Whatever exists
  at the path, file or directory, makes it fail with \<open>EEXIST\<close>.
\<close>

definition writeFile_wx :: "string \<Rightarrow> string \<Rightarrow> fs \<Rightarrow> errno option \<times> fs" where
  "writeFile_wx p data s =
     (let k = resolve s p
      in if k = [] then (Some EEXIST, s)
         else
           (case stat s (butlast k) of
              Inl e \<Rightarrow> (Some e, s)
            | Inr (File d) \<Rightarrow> (Some ENOTDIR, s)
            | Inr Dir \<Rightarrow>
                (case lookup s k of
                   Some n \<Rightarrow> (Some EEXIST, s)
                 | None \<Rightarrow> (None, add_node k (File data) s))))"

section \<open>Writing the files\<close>

datatype write_error = DestinationNotEmpty | TooManyConflicts | FsError errno

definition ensureDir :: "string \<Rightarrow> fs \<Rightarrow> write_error option \<times> fs" where
  "ensureDir dir s =
     (case mkdir_recursive dir s of
        (None, s') \<Rightarrow> (None, s')
      | (Some e, s') \<Rightarrow> (Some (FsError e), s'))"

text \<open>
  \<^verbatim>\<open>checkOutputDirectory\<close>: \<^verbatim>\<open>process.exit(1)\<close> is the result
  \<open>DestinationNotEmpty\<close>; it reads and never writes.
\<close>

definition checkOutputDirectory :: "string \<Rightarrow> fs \<Rightarrow> write_error option" where
  "checkOutputDirectory outputRoot s =
     (case readdir s outputRoot of
        Inr files \<Rightarrow> if length files > 0 then Some DestinationNotEmpty else None
      | Inl e \<Rightarrow> if e \<noteq> ENOENT then Some (FsError e) else None)"

text \<open>The decimal text of a counter, as a template literal prints it.\<close>

definition digit_char :: "nat \<Rightarrow> char" where
  "digit_char d = ''0123456789'' ! d"

function string_of_nat :: "nat \<Rightarrow> string" where
  "string_of_nat n =
     (if n < 10 then [digit_char n] else string_of_nat (n div 10) @ [digit_char (n mod 10)])"
  by pat_completeness auto
termination
  by (relation "measure (\<lambda>n. n)") auto

text \<open>
  The match of \<^verbatim>\<open>/\.[^/.]+$/\<close>: a dot followed, up to the end of the text, by
  one or more characters that are neither a dot nor a slash. There is at most one.
\<close>

definition extension_of :: "string \<Rightarrow> string" where
  "extension_of p =
     (let tail = takeWhile (\<lambda>c. c \<noteq> CHR ''.'' \<and> c \<noteq> CHR ''/'') (rev p);
          front = drop (length tail) (rev p)
      in if tail \<noteq> [] \<and> front \<noteq> [] \<and> hd front = CHR ''.''
         then CHR ''.'' # rev tail
         else [])"

definition generateFileName :: "string \<Rightarrow> nat \<Rightarrow> string" where
  "generateFileName fullPath counter =
     (if counter = 0 then fullPath
      else
        (let extension = extension_of fullPath;
             baseName = take (length fullPath - length extension) fullPath
         in baseName @ ''.conflict'' @ string_of_nat counter @ extension))"

function tryWriteFile :: "string \<Rightarrow> string \<Rightarrow> nat \<Rightarrow> fs \<Rightarrow> write_error option \<times> fs" where
  "tryWriteFile fullPath sourceCode counter s =
     (if counter > 1000 then (Some TooManyConflicts, s)
      else
        (let targetPath = generateFileName fullPath counter
         in case writeFile_wx targetPath sourceCode s of
              (None, s') \<Rightarrow> (None, s')
            | (Some e, s') \<Rightarrow>
                if e \<noteq> EEXIST then (Some (FsError e), s')
                else if counter = 0 then
                  (case readFile s' targetPath of
                     Inl e' \<Rightarrow> (Some (FsError e'), s')
                   | Inr existingContent \<Rightarrow>
                       if existingContent = sourceCode then (None, s')
                       else tryWriteFile fullPath sourceCode (counter + 1) s')
                else tryWriteFile fullPath sourceCode (counter + 1) s'))"
  by pat_completeness auto
termination
  by (relation "measure (\<lambda>(fullPath, sourceCode, counter, s). 1001 - counter)") auto

definition writeSourceWithMerge ::
  "string \<Rightarrow> string \<Rightarrow> string \<Rightarrow> fs \<Rightarrow> write_error option \<times> fs" where
  "writeSourceWithMerge filePath sourceCode outputRoot s =
     (let fullPath = path_join outputRoot filePath
      in case ensureDir (path_dirname fullPath) s of
           (Some e, s') \<Rightarrow> (Some e, s')
         | (None, s') \<Rightarrow> tryWriteFile fullPath sourceCode 0 s')"

text \<open>
  The writes of \<^verbatim>\<open>main\<close> (lines 290 to 307), for a bundle of the shape the
  remote service documents: \<open>entries\<close> is \<^verbatim>\<open>Object.entries(sources)\<close> with
  each \<^verbatim>\<open>value.content\<close> a string, \<open>remaps\<close> is the \<^verbatim>\<open>remappings\<close>
  array of strings or \<^term>\<open>None\<close> when it is missing. The writes that
  \<^verbatim>\<open>Promise.all\<close> starts together are done here one after the other, in the order
  of the entries, and the first failure ends the run (\<^verbatim>\<open>process.exit(1)\<close>).
\<close>

fun writeSources :: "(string \<times> string) list \<Rightarrow> string \<Rightarrow> fs \<Rightarrow> write_error option \<times> fs" where
  "writeSources [] outputRoot s = (None, s)"
| "writeSources ((key, content) # rest) outputRoot s =
     (case writeSourceWithMerge key content outputRoot s of
        (Some e, s') \<Rightarrow> (Some e, s')
      | (None, s') \<Rightarrow> writeSources rest outputRoot s')"

definition main_write ::
  "bool \<Rightarrow> string \<Rightarrow> (string \<times> string) list \<Rightarrow> string list option \<Rightarrow> fs
     \<Rightarrow> write_error option \<times> fs" where
  "main_write merging outputRoot entries remaps s =
     (case (if \<not> merging then checkOutputDirectory outputRoot s else None) of
        Some e \<Rightarrow> (Some e, s)
      | None \<Rightarrow>
          (case writeSources entries outputRoot s of
             (Some e, s') \<Rightarrow> (Some e, s')
           | (None, s') \<Rightarrow>
               (case remaps of
                  None \<Rightarrow> (None, s')
                | Some rs \<Rightarrow>
                    writeSourceWithMerge ''remappings.txt'' (join_with [CHR 0x0A] rs)
                      outputRoot s')))"

section \<open>Notions used in the proofs\<close>

text \<open>
  \<open>extends s s'\<close>: every node of \<open>s\<close> is still there in \<open>s'\<close>, unchanged.
  \<open>all_dirs s cur rest\<close>: going down from \<open>cur\<close> along \<open>rest\<close>, every step is
  an existing directory.
\<close>

definition extends :: "fs \<Rightarrow> fs \<Rightarrow> bool" where
  "extends s s' = (cwd s' = cwd s \<and> (\<forall>k n. lookup s k = Some n \<longrightarrow> lookup s' k = Some n))"

fun all_dirs :: "fs \<Rightarrow> string list \<Rightarrow> string list \<Rightarrow> bool" where
  "all_dirs s cur [] = True"
| "all_dirs s cur (c # cs) = (lookup s (cur @ [c]) = Some Dir \<and> all_dirs s (cur @ [c]) cs)"

section \<open>Facts about arrays and segments\<close>

lemma split_on_no_sep: "sep \<notin> set xs \<Longrightarrow> split_on sep xs = [xs]"
  by (induction xs) auto

lemma split_on_append:
  "sep \<notin> set xs \<Longrightarrow> split_on sep (xs @ sep # ys) = xs # split_on sep ys"
  by (induction xs) auto

lemma is_hex_not_slash: "is_hex c \<Longrightarrow> c \<noteq> CHR ''/''"
  by (auto simp: is_hex_def)

lemma test_address_no_slash: "test_address a \<Longrightarrow> CHR ''/'' \<notin> set a"
  using is_hex_not_slash by (auto simp: test_address_def list_all_iff split: list.splits)

lemma test_address_nonempty: "test_address a \<Longrightarrow> a \<noteq> []"
  by (auto simp: test_address_def)

lemma pathSegments_nonempty: "s \<in> set (pathSegments_of u) \<Longrightarrow> s \<noteq> []"
  by (simp add: pathSegments_of_def)

lemma findIndex_ge: "- 1 \<le> findIndex p xs"
  by (induction xs) (auto simp: Let_def)

lemma findIndex_none: "findIndex p xs = - 1 \<longleftrightarrow> list_all (\<lambda>x. \<not> p x) xs"
proof (induction xs)
  case Nil
  show ?case by simp
next
  case (Cons x xs)
  have "- 1 \<le> findIndex p xs" by (rule findIndex_ge)
  then have "findIndex p xs + 1 \<noteq> - 1" by arith
  with Cons show ?case by (simp add: Let_def)
qed

lemma findIndex_first:
  "list_all (\<lambda>x. \<not> p x) pre \<Longrightarrow> p x \<Longrightarrow> findIndex p (pre @ x # post) = int (length pre)"
  by (induction pre) (auto simp: Let_def)

lemma findIndex_split:
  "findIndex p xs \<noteq> - 1 \<Longrightarrow>
     \<exists>pre x post. xs = pre @ x # post \<and> list_all (\<lambda>y. \<not> p y) pre \<and> p x
        \<and> findIndex p xs = int (length pre)"
proof (induction xs)
  case Nil
  then show ?case by simp
next
  case (Cons y ys)
  show ?case
  proof (cases "p y")
    case True
    then have "y # ys = [] @ y # ys \<and> list_all (\<lambda>y. \<not> p y) [] \<and> p y
        \<and> findIndex p (y # ys) = int (length ([]::'a list))" by simp
    then show ?thesis by blast
  next
    case False
    with Cons.prems have "findIndex p ys \<noteq> - 1" by (auto simp: Let_def split: if_splits)
    from Cons.IH [OF this] obtain pre x post where
      h: "ys = pre @ x # post" "list_all (\<lambda>y. \<not> p y) pre" "p x" "findIndex p ys = int (length pre)"
      by blast
    with False have "y # ys = (y # pre) @ x # post \<and> list_all (\<lambda>y. \<not> p y) (y # pre) \<and> p x
        \<and> findIndex p (y # ys) = int (length (y # pre))" by (simp add: Let_def)
    then show ?thesis by blast
  qed
qed

lemma findIndex_last_only:
  assumes "list_all (\<lambda>x. \<not> p x) (butlast xs)"
  shows "findIndex p xs = - 1 \<or> (xs \<noteq> [] \<and> findIndex p xs = int (length (butlast xs)))"
proof (cases "xs = []")
  case True
  then show ?thesis by simp
next
  case False
  then have xs: "xs = butlast xs @ last xs # []" by simp
  show ?thesis
  proof (cases "p (last xs)")
    case True
    from findIndex_first [OF assms True, of "[]"] xs False show ?thesis by simp
  next
    case False
    with assms have "list_all (\<lambda>x. \<not> p x) (butlast xs @ [last xs])" by simp
    with xs have "list_all (\<lambda>x. \<not> p x) xs" by simp
    then show ?thesis by (simp add: findIndex_none)
  qed
qed

lemma at_append_next: "at (pre @ x # y # post) (int (length pre) + 1) = Some y"
  by (simp add: at_def nat_add_distrib nth_append)

lemma at_length_butlast_Suc: "xs \<noteq> [] \<Longrightarrow> at xs (int (length (butlast xs)) + 1) = None"
  by (simp add: at_def)

lemma at_Some_split:
  "at (pre @ x # post) (int (length pre) + 1) = Some a \<Longrightarrow> \<exists>post'. post = a # post'"
  by (cases post) (auto simp: at_def nat_add_distrib nth_append split: if_splits)

lemma find_Some_test: "List.find p xs = Some a \<Longrightarrow> p a \<and> a \<in> set xs"
  by (induction xs) (auto split: if_splits)

lemma find_None_all: "list_all (\<lambda>s. \<not> p s) xs \<Longrightarrow> List.find p xs = None"
  by (induction xs) auto

section \<open>Facts about the resolver\<close>

lemma blockscan_path_segments:
  assumes "pathname u = ''/'' @ ident @ ''/'' @ addr" "ident \<noteq> []" "CHR ''/'' \<notin> set ident"
    "test_address addr"
  shows "pathSegments_of u = [ident, addr]"
  using assms test_address_no_slash [of addr] test_address_nonempty [of addr]
  by (simp add: pathSegments_of_def split_on_append split_on_no_sep)

lemma parseGeneric_marker:
  assumes "m domain = Some c" "c \<noteq> 0"
    and "list_all (\<lambda>s. \<not> is_marker s) pre" "is_marker mk" "a \<noteq> []"
  shows "parseGeneric (Some m) domain (pre @ mk # a # post)
           = Inr \<lparr>contractAddress = Some a, chainId = Some (ChainId c)\<rparr>"
  using assms
  by (simp add: parseGeneric_def truthy_chain_def truthy_str_def Let_def
      findIndex_first at_append_next)

lemma parseGeneric_fallback:
  assumes "m domain = Some c" "c \<noteq> 0"
    and "list_all (\<lambda>s. \<not> is_marker s) (butlast segs)"
  shows "parseGeneric (Some m) domain segs
           = (case List.find test_address segs of
                Some a \<Rightarrow> Inr \<lparr>contractAddress = Some a, chainId = Some (ChainId c)\<rparr>
              | None \<Rightarrow> Inl AddressNotFound)"
proof -
  have tr: "truthy_str (List.find test_address segs) \<longleftrightarrow> List.find test_address segs \<noteq> None"
    using find_Some_test [of test_address segs] test_address_nonempty
    by (auto simp: truthy_str_def split: option.splits)
  have "findIndex is_marker segs = - 1
      \<or> \<not> truthy_str (at segs (findIndex is_marker segs + 1))"
  proof (rule disjE [OF findIndex_last_only [OF assms(3)]])
    assume "findIndex is_marker segs = - 1"
    then show ?thesis by simp
  next
    assume h: "segs \<noteq> [] \<and> findIndex is_marker segs = int (length (butlast segs))"
    then have "at segs (findIndex is_marker segs + 1) = None"
      using at_length_butlast_Suc [of segs] by simp
    then show ?thesis by (simp add: truthy_str_def)
  qed
  then show ?thesis using assms(1,2) tr
    by (auto simp: parseGeneric_def truthy_chain_def Let_def split: option.splits)
qed

lemma parseBlockscan_Inr:
  "parseBlockscan segs = Inr r \<Longrightarrow> \<exists>a. contractAddress r = Some a \<and> test_address a"
  by (auto simp: parseBlockscan_def Let_def at_def truthy_str_def split: if_splits)

lemma parseGeneric_Inr:
  assumes "parseGeneric registry domain segs = Inr r"
  shows "\<exists>a. contractAddress r = Some a \<and>
           (test_address a \<or>
            (\<exists>pre mk post. segs = pre @ mk # a # post
                \<and> list_all (\<lambda>s. \<not> is_marker s) pre \<and> is_marker mk))"
proof -
  from assms obtain m where reg: "registry = Some m"
    by (auto simp: parseGeneric_def split: option.splits)
  let ?i = "findIndex is_marker segs"
  show ?thesis
  proof (cases "?i \<noteq> - 1 \<and> truthy_str (at segs (?i + 1))")
    case True
    then obtain a where a: "at segs (?i + 1) = Some a"
      by (auto simp: truthy_str_def split: option.splits)
    from True findIndex_split [of is_marker segs] obtain pre mk post where
      sp: "segs = pre @ mk # post" "list_all (\<lambda>s. \<not> is_marker s) pre" "is_marker mk"
        "?i = int (length pre)"
      by blast
    from a sp(1,4) at_Some_split [of pre mk post a] obtain post' where "post = a # post'"
      by auto
    with sp have "segs = pre @ mk # a # post' \<and> list_all (\<lambda>s. \<not> is_marker s) pre \<and> is_marker mk"
      by simp
    moreover from assms reg True a have "contractAddress r = Some a"
      by (auto simp: parseGeneric_def Let_def split: if_splits)
    ultimately show ?thesis by blast
  next
    case False
    with assms reg have "contractAddress r = List.find test_address segs"
      and "truthy_str (List.find test_address segs)"
      by (auto simp: parseGeneric_def Let_def split: if_splits)
    then show ?thesis using find_Some_test [of test_address segs]
      by (auto simp: truthy_str_def split: option.splits)
  qed
qed

lemma parseBlockscan_fails:
  "list_all (\<lambda>s. \<not> test_address s) segs \<Longrightarrow> parseBlockscan segs = Inl InvalidBlockscanUrl"
  by (cases segs; cases "tl segs")
     (auto simp: parseBlockscan_def Let_def truthy_str_def)

lemma parseGeneric_fails:
  assumes "list_all (\<lambda>s. \<not> test_address s) segs"
    and "list_all (\<lambda>s. \<not> is_marker s) (butlast segs)"
  shows "\<exists>e. parseGeneric registry domain segs = Inl e"
proof (cases registry)
  case None
  then show ?thesis by (simp add: parseGeneric_def)
next
  case (Some m)
  show ?thesis
  proof (cases "truthy_chain (map_option ChainId (m domain))")
    case False
    with Some show ?thesis by (simp add: parseGeneric_def Let_def)
  next
    case True
    then obtain c where c: "m domain = Some c" "c \<noteq> 0"
      by (auto simp: truthy_chain_def split: option.splits)
    from parseGeneric_fallback [of m domain c segs] c assms(2) find_None_all [OF assms(1)] Some
    show ?thesis by simp
  qed
qed

lemmas resolver_eval =
  parseArgs_def indexOf_def at_def slice_def slice_from_def filter_index_neq_def
  tryParseExplorerUrl_def parseGeneric_def parseBlockscan_def pathSegments_of_def
  truthy_chain_def truthy_str_def is_marker_def toLowerCase_def lower_char_def
  test_address_def is_hex_def Let_def

section \<open>The claims about the resolver and the command line\<close>

text \<open>
  C1. The claim: when the contract argument is a URL, the value of \<^verbatim>\<open>--chain\<close> is
  ignored and the chain found in the URL is used. The help text of \<^verbatim>\<open>main\<close> says
  the same. The last line of \<^verbatim>\<open>parseArgs\<close> is
  \<^verbatim>\<open>chain = chain || parsed.chainId || "ethereum"\<close>, so a flag that is given wins.
  On the command line \<^verbatim>\<open>--chain polygon https://etherscan.io/address/0xdAC1...\<close>,
  with \<^verbatim>\<open>etherscan.io\<close> registered for chain 1, the chain of the result is
  \<^verbatim>\<open>polygon\<close>.
\<close>

theorem parseArgs_flag_overrides_url_chain:
  "parseArgs
     [''https://etherscan.io/address/0xdAC17F958D2ee523a2206206994597C13D831ec7'' \<mapsto>
        \<lparr>hostname = ''etherscan.io'',
         pathname = ''/address/0xdAC17F958D2ee523a2206206994597C13D831ec7''\<rparr>]
     (Some [''etherscan.io'' \<mapsto> 1])
     [''--chain'', ''polygon'',
      ''https://etherscan.io/address/0xdAC17F958D2ee523a2206206994597C13D831ec7'']
   = Inr \<lparr>arg_chain = ChainName ''polygon'',
           arg_contract = Some ''0xdAC17F958D2ee523a2206206994597C13D831ec7'',
           arg_outputRoot = None, arg_merge = False\<rparr>"
  by (simp add: resolver_eval)

text \<open>
  C2, as stated: whenever the resolution succeeds, the returned address matches
  \<^verbatim>\<open>^0x[0-9a-fA-F]{40}$\<close>. It fails on a token that is not a URL: the token comes
  back as the address, unchecked.
\<close>

theorem resolved_address_shape_counterexample:
  "tryParseExplorerUrl Map.empty None (Some ''hello'')
     = Inr \<lparr>contractAddress = Some ''hello'', chainId = None\<rparr>
   \<and> \<not> test_address ''hello''"
  by (simp add: resolver_eval)

text \<open>
  C2, amended: whenever the resolution succeeds, the returned address is the token
  itself when the token is not a URL; for a URL it matches the address pattern, or it
  is the segment after the first marker segment of a generic explorer URL (returned
  unchecked). The resolution fails on every URL that has no address-shaped segment and
  no marker followed by a segment.
\<close>

theorem resolved_address_shape:
  "(tryParseExplorerUrl parseURL registry tok = Inr r \<longrightarrow>
      (case parseURL (case tok of None \<Rightarrow> ''undefined'' | Some s \<Rightarrow> s) of
         None \<Rightarrow> contractAddress r = tok
       | Some u \<Rightarrow>
           (\<exists>a. contractAddress r = Some a \<and>
              (test_address a \<or>
               (hostname u \<noteq> ''vscode.blockscan.com'' \<and>
                (\<exists>pre mk post. pathSegments_of u = pre @ mk # a # post
                    \<and> list_all (\<lambda>s. \<not> is_marker s) pre \<and> is_marker mk))))))
   \<and> (parseURL (case tok of None \<Rightarrow> ''undefined'' | Some s \<Rightarrow> s) = Some u
        \<and> list_all (\<lambda>s. \<not> test_address s) (pathSegments_of u)
        \<and> list_all (\<lambda>s. \<not> is_marker s) (butlast (pathSegments_of u))
      \<longrightarrow> (\<exists>e. tryParseExplorerUrl parseURL registry tok = Inl e))"
proof (intro conjI impI)
  assume ok: "tryParseExplorerUrl parseURL registry tok = Inr r"
  show "case parseURL (case tok of None \<Rightarrow> ''undefined'' | Some s \<Rightarrow> s) of
         None \<Rightarrow> contractAddress r = tok
       | Some u \<Rightarrow>
           (\<exists>a. contractAddress r = Some a \<and>
              (test_address a \<or>
               (hostname u \<noteq> ''vscode.blockscan.com'' \<and>
                (\<exists>pre mk post. pathSegments_of u = pre @ mk # a # post
                    \<and> list_all (\<lambda>s. \<not> is_marker s) pre \<and> is_marker mk))))"
  proof (cases "parseURL (case tok of None \<Rightarrow> ''undefined'' | Some s \<Rightarrow> s)")
    case None
    with ok show ?thesis by (auto simp: tryParseExplorerUrl_def)
  next
    case (Some v)
    show ?thesis
    proof (cases "hostname v = ''vscode.blockscan.com''")
      case True
      with ok Some have "parseBlockscan (pathSegments_of v) = Inr r"
        by (simp add: tryParseExplorerUrl_def Let_def)
      from parseBlockscan_Inr [OF this] Some show ?thesis by auto
    next
      case False
      with ok Some have "parseGeneric registry (hostname v) (pathSegments_of v) = Inr r"
        by (simp add: tryParseExplorerUrl_def Let_def)
      from parseGeneric_Inr [OF this] Some False show ?thesis by auto
    qed
  qed
next
  assume h: "parseURL (case tok of None \<Rightarrow> ''undefined'' | Some s \<Rightarrow> s) = Some u
        \<and> list_all (\<lambda>s. \<not> test_address s) (pathSegments_of u)
        \<and> list_all (\<lambda>s. \<not> is_marker s) (butlast (pathSegments_of u))"
  show "\<exists>e. tryParseExplorerUrl parseURL registry tok = Inl e"
  proof (cases "hostname u = ''vscode.blockscan.com''")
    case True
    with h parseBlockscan_fails [of "pathSegments_of u"] show ?thesis
      by (simp add: tryParseExplorerUrl_def Let_def)
  next
    case False
    with h parseGeneric_fails [of "pathSegments_of u" registry "hostname u"] show ?thesis
      by (simp add: tryParseExplorerUrl_def Let_def)
  qed
qed

theorem resolved_address_shape_witness:
  "tryParseExplorerUrl
     [''https://etherscan.io/tx/0xdAC17F958D2ee523a2206206994597C13D831ec7'' \<mapsto>
        \<lparr>hostname = ''etherscan.io'',
         pathname = ''/tx/0xdAC17F958D2ee523a2206206994597C13D831ec7''\<rparr>]
     (Some [''etherscan.io'' \<mapsto> 1])
     (Some ''https://etherscan.io/tx/0xdAC17F958D2ee523a2206206994597C13D831ec7'')
     = Inr \<lparr>contractAddress = Some ''0xdAC17F958D2ee523a2206206994597C13D831ec7'',
             chainId = Some (ChainId 1)\<rparr>
   \<and> test_address ''0xdAC17F958D2ee523a2206206994597C13D831ec7''
   \<and> list_all (\<lambda>s. \<not> test_address s)
        (pathSegments_of \<lparr>hostname = ''etherscan.io'', pathname = ''/tx/0x12''\<rparr>)
   \<and> list_all (\<lambda>s. \<not> is_marker s)
        (butlast (pathSegments_of \<lparr>hostname = ''etherscan.io'', pathname = ''/tx/0x12''\<rparr>))
   \<and> (\<exists>e. tryParseExplorerUrl
          [''https://etherscan.io/tx/0x12'' \<mapsto>
             \<lparr>hostname = ''etherscan.io'', pathname = ''/tx/0x12''\<rparr>]
          (Some [''etherscan.io'' \<mapsto> 1]) (Some ''https://etherscan.io/tx/0x12'') = Inl e)"
proof -
  let ?a = "''0xdAC17F958D2ee523a2206206994597C13D831ec7''"
  let ?P = "[''https://etherscan.io/tx/0xdAC17F958D2ee523a2206206994597C13D831ec7'' \<mapsto>
        \<lparr>hostname = ''etherscan.io'',
         pathname = ''/tx/0xdAC17F958D2ee523a2206206994597C13D831ec7''\<rparr>]"
  let ?t = "Some ''https://etherscan.io/tx/0xdAC17F958D2ee523a2206206994597C13D831ec7''"
  let ?r = "\<lparr>contractAddress = Some ?a, chainId = Some (ChainId 1)\<rparr>"
  let ?u = "\<lparr>hostname = ''etherscan.io'', pathname = ''/tx/0x12''\<rparr>"
  let ?Q = "[''https://etherscan.io/tx/0x12'' \<mapsto> ?u]"
  have ok: "tryParseExplorerUrl ?P (Some [''etherscan.io'' \<mapsto> 1]) ?t = Inr ?r"
    by (simp add: resolver_eval)
  have shape: "test_address ?a"
    using ok resolved_address_shape [of ?P "Some [''etherscan.io'' \<mapsto> 1]" ?t ?r]
    by (simp add: resolver_eval)
  have h: "?Q (case Some ''https://etherscan.io/tx/0x12'' of None \<Rightarrow> ''undefined'' | Some s \<Rightarrow> s)
        = Some ?u
      \<and> list_all (\<lambda>s. \<not> test_address s) (pathSegments_of ?u)
      \<and> list_all (\<lambda>s. \<not> is_marker s) (butlast (pathSegments_of ?u))"
    by (simp add: resolver_eval)
  have fails: "\<exists>e. tryParseExplorerUrl ?Q (Some [''etherscan.io'' \<mapsto> 1])
      (Some ''https://etherscan.io/tx/0x12'') = Inl e"
    using h resolved_address_shape [of ?Q "Some [''etherscan.io'' \<mapsto> 1]"
        "Some ''https://etherscan.io/tx/0x12''" undefined ?u]
    by blast
  from ok shape h fails show ?thesis by blast
qed

text \<open>
  C3, as stated: on a generic explorer URL the fallback scan for an address-shaped
  segment is used only when no marker segment exists. In
  \<^verbatim>\<open>/0xdAC1...1ec7/address\<close> the second segment is a marker, nothing follows it, and
  the first segment is returned by the fallback scan.
\<close>

theorem generic_marker_then_fallback_counterexample:
  "is_marker (pathSegments_of
      \<lparr>hostname = ''etherscan.io'',
       pathname = ''/0xdAC17F958D2ee523a2206206994597C13D831ec7/address''\<rparr> ! 1)
   \<and> tryParseExplorerUrl
       [''https://etherscan.io/0xdAC17F958D2ee523a2206206994597C13D831ec7/address'' \<mapsto>
          \<lparr>hostname = ''etherscan.io'',
           pathname = ''/0xdAC17F958D2ee523a2206206994597C13D831ec7/address''\<rparr>]
       (Some [''etherscan.io'' \<mapsto> 1])
       (Some ''https://etherscan.io/0xdAC17F958D2ee523a2206206994597C13D831ec7/address'')
     = Inr \<lparr>contractAddress =
               Some (pathSegments_of
                  \<lparr>hostname = ''etherscan.io'',
                   pathname = ''/0xdAC17F958D2ee523a2206206994597C13D831ec7/address''\<rparr> ! 0),
             chainId = Some (ChainId 1)\<rparr>"
  by (simp add: resolver_eval)

text \<open>
  C3, amended: for a generic explorer URL on a registered host, when the first marker
  segment (\<^verbatim>\<open>address\<close>, \<^verbatim>\<open>token\<close> or \<^verbatim>\<open>contract\<close>, in any case of
  letters) is followed by a segment, that segment is returned as the address. When no
  marker is followed by a segment (there is no marker, or the only one is the last
  segment), the first address-shaped segment is returned, and the resolution fails if
  there is none.
\<close>

theorem generic_marker_then_fallback:
  assumes "parseURL tok = Some u" and "hostname u \<noteq> ''vscode.blockscan.com''"
    and "registry = Some m" and "m (hostname u) = Some c" and "c \<noteq> 0"
  shows "(pathSegments_of u = pre @ mk # a # post \<and> list_all (\<lambda>s. \<not> is_marker s) pre
            \<and> is_marker mk
          \<longrightarrow> tryParseExplorerUrl parseURL registry (Some tok)
                = Inr \<lparr>contractAddress = Some a, chainId = Some (ChainId c)\<rparr>)
       \<and> (list_all (\<lambda>s. \<not> is_marker s) (butlast (pathSegments_of u))
          \<longrightarrow> tryParseExplorerUrl parseURL registry (Some tok)
                = (case List.find test_address (pathSegments_of u) of
                     Some a \<Rightarrow> Inr \<lparr>contractAddress = Some a, chainId = Some (ChainId c)\<rparr>
                   | None \<Rightarrow> Inl AddressNotFound))"
proof (intro conjI impI)
  assume h: "pathSegments_of u = pre @ mk # a # post \<and> list_all (\<lambda>s. \<not> is_marker s) pre
      \<and> is_marker mk"
  then have "a \<in> set (pathSegments_of u)" by simp
  then have "a \<noteq> []" by (rule pathSegments_nonempty)
  with h assms show "tryParseExplorerUrl parseURL registry (Some tok)
      = Inr \<lparr>contractAddress = Some a, chainId = Some (ChainId c)\<rparr>"
    by (simp add: tryParseExplorerUrl_def Let_def parseGeneric_marker)
next
  assume "list_all (\<lambda>s. \<not> is_marker s) (butlast (pathSegments_of u))"
  with assms show "tryParseExplorerUrl parseURL registry (Some tok)
      = (case List.find test_address (pathSegments_of u) of
           Some a \<Rightarrow> Inr \<lparr>contractAddress = Some a, chainId = Some (ChainId c)\<rparr>
         | None \<Rightarrow> Inl AddressNotFound)"
    by (simp add: tryParseExplorerUrl_def Let_def parseGeneric_fallback)
qed

theorem generic_marker_then_fallback_witness:
  "tryParseExplorerUrl
     [''https://etherscan.io/token/0xdAC17F958D2ee523a2206206994597C13D831ec7/holders'' \<mapsto>
        \<lparr>hostname = ''etherscan.io'',
         pathname = ''/token/0xdAC17F958D2ee523a2206206994597C13D831ec7/holders''\<rparr>]
     (Some [''etherscan.io'' \<mapsto> 1])
     (Some ''https://etherscan.io/token/0xdAC17F958D2ee523a2206206994597C13D831ec7/holders'')
   = Inr \<lparr>contractAddress = Some ''0xdAC17F958D2ee523a2206206994597C13D831ec7'',
           chainId = Some (ChainId 1)\<rparr>
   \<and> tryParseExplorerUrl
     [''https://etherscan.io/tx/0x12'' \<mapsto>
        \<lparr>hostname = ''etherscan.io'', pathname = ''/tx/0x12''\<rparr>]
     (Some [''etherscan.io'' \<mapsto> 1]) (Some ''https://etherscan.io/tx/0x12'')
   = Inl AddressNotFound"
proof -
  let ?a = "''0xdAC17F958D2ee523a2206206994597C13D831ec7''"
  let ?u = "\<lparr>hostname = ''etherscan.io'',
         pathname = ''/token/0xdAC17F958D2ee523a2206206994597C13D831ec7/holders''\<rparr>"
  let ?tok = "''https://etherscan.io/token/0xdAC17F958D2ee523a2206206994597C13D831ec7/holders''"
  let ?m = "[''etherscan.io'' \<mapsto> (1::int)]"
  let ?v = "\<lparr>hostname = ''etherscan.io'', pathname = ''/tx/0x12''\<rparr>"
  have seg: "pathSegments_of ?u = [] @ ''token'' # ?a # [''holders'']
      \<and> list_all (\<lambda>s. \<not> is_marker s) [] \<and> is_marker ''token''"
    by (simp add: resolver_eval)
  have one: "tryParseExplorerUrl [?tok \<mapsto> ?u] (Some ?m) (Some ?tok)
      = Inr \<lparr>contractAddress = Some ?a, chainId = Some (ChainId 1)\<rparr>"
    using seg generic_marker_then_fallback [of "[?tok \<mapsto> ?u]" ?tok ?u "Some ?m" ?m 1
        "[]" "''token''" ?a "[''holders'']"]
    by simp
  have nomark: "list_all (\<lambda>s. \<not> is_marker s) (butlast (pathSegments_of ?v))"
    by (simp add: resolver_eval)
  have two: "tryParseExplorerUrl [''https://etherscan.io/tx/0x12'' \<mapsto> ?v] (Some ?m)
      (Some ''https://etherscan.io/tx/0x12'') = Inl AddressNotFound"
    using nomark generic_marker_then_fallback [of "[''https://etherscan.io/tx/0x12'' \<mapsto> ?v]"
        "''https://etherscan.io/tx/0x12''" ?v "Some ?m" ?m 1]
    by (simp add: resolver_eval)
  from one two show ?thesis by simp
qed

text \<open>
  C4: a URL on the host \<^verbatim>\<open>vscode.blockscan.com\<close> with the path
  \<^verbatim>\<open>/{id}/{addr}\<close>, where \<^verbatim>\<open>addr\<close> matches the address pattern, resolves to
  \<^verbatim>\<open>addr\<close> with \<^verbatim>\<open>id\<close> as the chain, whatever text \<^verbatim>\<open>id\<close> is
  (the registry is not consulted). With fewer than two path segments, or a second segment
  that does not match the pattern, the resolution fails.
\<close>

theorem blockscan_url_resolution:
  assumes "parseURL tok = Some u" and "hostname u = ''vscode.blockscan.com''"
  shows "(ident \<noteq> [] \<and> CHR ''/'' \<notin> set ident \<and> test_address addr
            \<and> pathname u = ''/'' @ ident @ ''/'' @ addr
          \<longrightarrow> tryParseExplorerUrl parseURL registry (Some tok)
                = Inr \<lparr>contractAddress = Some addr, chainId = Some (ChainName ident)\<rparr>)
       \<and> (length (pathSegments_of u) < 2 \<or> \<not> test_address (pathSegments_of u ! 1)
          \<longrightarrow> tryParseExplorerUrl parseURL registry (Some tok) = Inl InvalidBlockscanUrl)"
proof (intro conjI impI)
  assume h: "ident \<noteq> [] \<and> CHR ''/'' \<notin> set ident \<and> test_address addr
            \<and> pathname u = ''/'' @ ident @ ''/'' @ addr"
  then have "pathSegments_of u = [ident, addr]" by (simp add: blockscan_path_segments)
  with h assms test_address_nonempty [of addr]
  show "tryParseExplorerUrl parseURL registry (Some tok)
                = Inr \<lparr>contractAddress = Some addr, chainId = Some (ChainName ident)\<rparr>"
    by (simp add: tryParseExplorerUrl_def Let_def parseBlockscan_def at_def truthy_str_def)
next
  assume "length (pathSegments_of u) < 2 \<or> \<not> test_address (pathSegments_of u ! 1)"
  with assms show "tryParseExplorerUrl parseURL registry (Some tok) = Inl InvalidBlockscanUrl"
    by (auto simp: tryParseExplorerUrl_def Let_def parseBlockscan_def truthy_str_def)
qed

theorem blockscan_url_resolution_witness:
  "tryParseExplorerUrl
     [''https://vscode.blockscan.com/mantle/0xdAC17F958D2ee523a2206206994597C13D831ec7'' \<mapsto>
        \<lparr>hostname = ''vscode.blockscan.com'',
         pathname = ''/mantle/0xdAC17F958D2ee523a2206206994597C13D831ec7''\<rparr>]
     None
     (Some ''https://vscode.blockscan.com/mantle/0xdAC17F958D2ee523a2206206994597C13D831ec7'')
   = Inr \<lparr>contractAddress = Some ''0xdAC17F958D2ee523a2206206994597C13D831ec7'',
           chainId = Some (ChainName ''mantle'')\<rparr>
   \<and> tryParseExplorerUrl
     [''https://vscode.blockscan.com/5000'' \<mapsto>
        \<lparr>hostname = ''vscode.blockscan.com'', pathname = ''/5000''\<rparr>]
     None (Some ''https://vscode.blockscan.com/5000'')
   = Inl InvalidBlockscanUrl"
proof -
  let ?a = "''0xdAC17F958D2ee523a2206206994597C13D831ec7''"
  let ?tok = "''https://vscode.blockscan.com/mantle/0xdAC17F958D2ee523a2206206994597C13D831ec7''"
  let ?u = "\<lparr>hostname = ''vscode.blockscan.com'',
         pathname = ''/mantle/0xdAC17F958D2ee523a2206206994597C13D831ec7''\<rparr>"
  let ?v = "\<lparr>hostname = ''vscode.blockscan.com'', pathname = ''/5000''\<rparr>"
  have h: "''mantle'' \<noteq> [] \<and> CHR ''/'' \<notin> set ''mantle'' \<and> test_address ?a
      \<and> pathname ?u = ''/'' @ ''mantle'' @ ''/'' @ ?a"
    by (simp add: resolver_eval)
  have one: "tryParseExplorerUrl [?tok \<mapsto> ?u] None (Some ?tok)
      = Inr \<lparr>contractAddress = Some ?a, chainId = Some (ChainName ''mantle'')\<rparr>"
    using h blockscan_url_resolution [of "[?tok \<mapsto> ?u]" ?tok ?u "''mantle''" ?a None]
    by simp
  have short: "length (pathSegments_of ?v) < 2" by (simp add: resolver_eval)
  have two: "tryParseExplorerUrl [''https://vscode.blockscan.com/5000'' \<mapsto> ?v] None
      (Some ''https://vscode.blockscan.com/5000'') = Inl InvalidBlockscanUrl"
    using short blockscan_url_resolution [of "[''https://vscode.blockscan.com/5000'' \<mapsto> ?v]"
        "''https://vscode.blockscan.com/5000''" ?v _ _ None]
    by simp
  from one two show ?thesis by simp
qed

section \<open>The claims about the source lookup\<close>

lemmas fetch_eval =
  fetchSource_def select_fields_def get_prop_def truthy_def to_string_opt_def
  synthetic_bundle_def

text \<open>
  C5, as stated: after every successful fetch the files of the bundle are not empty. The
  payload \<^verbatim>\<open>{"sources":{}}\<close> parses as JSON, and \<^verbatim>\<open>fetchSource\<close>
  returns its empty \<^verbatim>\<open>sources\<close> object as it is.
\<close>

theorem fetchSource_files_counterexample:
  "fetchSource [''{\"sources\":{}}'' \<mapsto> JObj [(''sources'', JObj [])]]
     (JObj [(''result'', JStr ''{\"sources\":{}}''), (''contractName'', JStr ''Token''),
            (''ext'', JStr ''sol'')])
   = Inr \<lparr>contractName = Some (JStr ''Token''), sources = Some (JObj []), remappings = None\<rparr>"
  by (simp add: fetch_eval)

text \<open>
  C5, amended: after a successful fetch, when the payload does not parse as JSON (or
  parses to \<^verbatim>\<open>null\<close>), the bundle has exactly one entry, named
  \<^verbatim>\<open>{contractName}.{ext}\<close>, whose content is the payload; otherwise the files
  of the bundle are the \<^verbatim>\<open>sources\<close> property of the parsed value, whatever it
  is (it may be empty or missing).
\<close>

theorem fetchSource_files:
  assumes "fetchSource JSON_parse api = Inr b"
    and "select_fields api = (source, name, ext)"
  shows "(JSON_parse (to_string_opt source) = None \<or> JSON_parse (to_string_opt source) = Some JNull
            \<longrightarrow> (\<exists>payload. source = Some payload
                  \<and> sources b = Some (JObj [(to_string_opt name @ ''.'' @ to_string_opt ext,
                                              JObj [(''content'', payload)])])))
       \<and> (JSON_parse (to_string_opt source) = Some parsed \<and> parsed \<noteq> JNull
            \<longrightarrow> sources b = get_prop parsed ''sources'')"
proof -
  from assms(1) have nn: "api \<noteq> JNull" by (cases "api = JNull") (simp_all add: fetchSource_def)
  from assms(1) nn assms(2) have tr: "truthy source"
    by (cases "truthy source") (simp_all add: fetchSource_def)
  then obtain payload where p: "source = Some payload"
    by (cases source) (simp_all add: truthy_def)
  show ?thesis
  proof (intro conjI impI)
    assume "JSON_parse (to_string_opt source) = None \<or> JSON_parse (to_string_opt source) = Some JNull"
    then have "fetchSource JSON_parse api = Inr (synthetic_bundle name ext (the source))"
      using nn tr assms(2) by (elim disjE) (simp_all add: fetchSource_def)
    with assms(1) p have "b = synthetic_bundle name ext payload" by simp
    with p show "\<exists>payload. source = Some payload
        \<and> sources b = Some (JObj [(to_string_opt name @ ''.'' @ to_string_opt ext,
                                     JObj [(''content'', payload)])])"
      by (simp add: synthetic_bundle_def)
  next
    assume "JSON_parse (to_string_opt source) = Some parsed \<and> parsed \<noteq> JNull"
    with nn tr assms show "sources b = get_prop parsed ''sources''"
      by (auto simp: fetchSource_def)
  qed
qed

theorem fetchSource_files_witness:
  "fetchSource Map.empty
     (JObj [(''result'', JStr ''contract T {}''), (''contractName'', JStr ''T''),
            (''ext'', JStr ''sol'')])
   = Inr \<lparr>contractName = Some (JStr ''T''),
           sources = Some (JObj [(''T.sol'', JObj [(''content'', JStr ''contract T {}'')])]),
           remappings = None\<rparr>
   \<and> select_fields (JObj [(''result'', JStr ''contract T {}''), (''contractName'', JStr ''T''),
            (''ext'', JStr ''sol'')])
     = (Some (JStr ''contract T {}''), Some (JStr ''T''), Some (JStr ''sol''))
   \<and> (\<exists>payload. Some (JStr ''contract T {}'') = Some payload
         \<and> sources \<lparr>contractName = Some (JStr ''T''),
               sources = Some (JObj [(''T.sol'', JObj [(''content'', JStr ''contract T {}'')])]),
               remappings = None\<rparr>
           = Some (JObj [(to_string_opt (Some (JStr ''T'')) @ ''.'' @ to_string_opt (Some (JStr ''sol'')),
                          JObj [(''content'', payload)])]))"
proof -
  let ?api = "JObj [(''result'', JStr ''contract T {}''), (''contractName'', JStr ''T''),
            (''ext'', JStr ''sol'')]"
  let ?b = "\<lparr>contractName = Some (JStr ''T''),
           sources = Some (JObj [(''T.sol'', JObj [(''content'', JStr ''contract T {}'')])]),
           remappings = None\<rparr>"
  have run: "fetchSource Map.empty ?api = Inr ?b" by (simp add: fetch_eval)
  have sel: "select_fields ?api = (Some (JStr ''contract T {}''), Some (JStr ''T''), Some (JStr ''sol''))"
    by (simp add: select_fields_def get_prop_def truthy_def)
  have thrown: "Map.empty (to_string_opt (Some (JStr ''contract T {}''))) = None
      \<or> Map.empty (to_string_opt (Some (JStr ''contract T {}''))) = Some JNull"
    by simp
  from fetchSource_files [OF run sel] thrown
  have "\<exists>payload. Some (JStr ''contract T {}'') = Some payload
         \<and> sources ?b
           = Some (JObj [(to_string_opt (Some (JStr ''T'')) @ ''.'' @ to_string_opt (Some (JStr ''sol'')),
                          JObj [(''content'', payload)])])"
    by blast
  with run sel show ?thesis by blast
qed

text \<open>
  C10: when \<^verbatim>\<open>proxyAddress\<close> of the response is truthy, the fetch reads the proxy
  fields only: it fails with the no-source error when \<^verbatim>\<open>proxyResult\<close> is empty
  or missing, whatever \<^verbatim>\<open>result\<close> holds, and two responses with the same proxy
  fields give the same outcome.
\<close>

theorem proxy_fields_only:
  assumes "truthy (get_prop api ''proxyAddress'')"
  shows "(\<not> truthy (get_prop api ''proxyResult'') \<longrightarrow> fetchSource JSON_parse api = Inl NoSourceFound)
       \<and> (truthy (get_prop api' ''proxyAddress'')
            \<and> get_prop api' ''proxyResult'' = get_prop api ''proxyResult''
            \<and> get_prop api' ''proxyContractName'' = get_prop api ''proxyContractName''
            \<and> get_prop api' ''proxyExt'' = get_prop api ''proxyExt''
          \<longrightarrow> fetchSource JSON_parse api' = fetchSource JSON_parse api)"
proof -
  have nn: "\<And>a. truthy (get_prop a ''proxyAddress'') \<Longrightarrow> a \<noteq> JNull"
    by (auto simp: get_prop_def truthy_def)
  have sel: "\<And>a. truthy (get_prop a ''proxyAddress'') \<Longrightarrow>
      select_fields a = (get_prop a ''proxyResult'', get_prop a ''proxyContractName'',
            get_prop a ''proxyExt'')"
    by (simp add: select_fields_def)
  show ?thesis
  proof (intro conjI impI)
    assume "\<not> truthy (get_prop api ''proxyResult'')"
    with nn [OF assms] sel [OF assms] show "fetchSource JSON_parse api = Inl NoSourceFound"
      by (simp add: fetchSource_def)
  next
    assume h: "truthy (get_prop api' ''proxyAddress'')
            \<and> get_prop api' ''proxyResult'' = get_prop api ''proxyResult''
            \<and> get_prop api' ''proxyContractName'' = get_prop api ''proxyContractName''
            \<and> get_prop api' ''proxyExt'' = get_prop api ''proxyExt''"
    then have t: "truthy (get_prop api' ''proxyAddress'')" by simp
    from nn [OF t] sel [OF t] nn [OF assms] sel [OF assms] h
    show "fetchSource JSON_parse api' = fetchSource JSON_parse api"
      by (simp add: fetchSource_def)
  qed
qed

theorem proxy_fields_only_witness:
  "truthy (get_prop (JObj [(''proxyAddress'', JStr ''0x01''), (''result'', JStr ''contract T {}''),
                           (''contractName'', JStr ''T''), (''ext'', JStr ''sol'')]) ''proxyAddress'')
   \<and> \<not> truthy (get_prop (JObj [(''proxyAddress'', JStr ''0x01''), (''result'', JStr ''contract T {}''),
                           (''contractName'', JStr ''T''), (''ext'', JStr ''sol'')]) ''proxyResult'')
   \<and> fetchSource Map.empty
        (JObj [(''proxyAddress'', JStr ''0x01''), (''result'', JStr ''contract T {}''),
               (''contractName'', JStr ''T''), (''ext'', JStr ''sol'')])
      = Inl NoSourceFound"
proof -
  let ?api = "JObj [(''proxyAddress'', JStr ''0x01''), (''result'', JStr ''contract T {}''),
                           (''contractName'', JStr ''T''), (''ext'', JStr ''sol'')]"
  have h: "truthy (get_prop ?api ''proxyAddress'')" by (simp add: get_prop_def truthy_def)
  have n: "\<not> truthy (get_prop ?api ''proxyResult'')" by (simp add: get_prop_def truthy_def)
  from n proxy_fields_only [OF h, of Map.empty] have "fetchSource Map.empty ?api = Inl NoSourceFound"
    by blast
  with h n show ?thesis by blast
qed

section \<open>Facts about the file system\<close>

lemma extends_refl: "extends s s"
  by (simp add: extends_def)

lemma extends_trans: "extends a b \<Longrightarrow> extends b c \<Longrightarrow> extends a c"
  by (simp add: extends_def)

lemma extends_resolve: "extends s s' \<Longrightarrow> resolve s' p = resolve s p"
  by (simp add: extends_def resolve_def)

lemma cwd_add_node: "cwd (add_node k n s) = cwd s"
  by (simp add: add_node_def)

lemma resolve_add_node: "resolve (add_node k n s) p = resolve s p"
  by (simp add: resolve_def cwd_add_node)

lemma lookup_add_node_old: "lookup s k' = Some v \<Longrightarrow> lookup (add_node k n s) k' = Some v"
  by (auto simp: lookup_def add_node_def map_add_def split: if_splits)

lemma lookup_add_node_new: "lookup s k = None \<Longrightarrow> lookup (add_node k n s) k = Some n"
  by (auto simp: lookup_def add_node_def map_add_def split: if_splits)

lemma lookup_add_node_cases:
  "lookup (add_node k n s) k' = Some v \<Longrightarrow> lookup s k' = Some v \<or> (k' = k \<and> v = n)"
  by (auto simp: lookup_def add_node_def map_add_def split: if_splits option.splits)

lemma lookup_add_node_other: "k' \<noteq> k \<Longrightarrow> lookup (add_node k n s) k' = lookup s k'"
  by (auto simp: lookup_def add_node_def map_add_def split: if_splits option.splits)

lemma extends_add_node: "extends s (add_node k n s)"
  by (simp add: extends_def cwd_add_node lookup_add_node_old)

lemma traverse_append:
  "traverse s cur (xs @ [x]) =
     (case traverse s cur xs of
        Inl e \<Rightarrow> Inl e
      | Inr (File d) \<Rightarrow> Inl ENOTDIR
      | Inr Dir \<Rightarrow> (case lookup s (cur @ xs @ [x]) of None \<Rightarrow> Inl ENOENT | Some n \<Rightarrow> Inr n))"
  by (induction xs arbitrary: cur) (auto split: option.splits node.splits sum.splits)

lemma traverse_extends:
  "extends s s' \<Longrightarrow> traverse s cur rest = Inr n \<Longrightarrow> traverse s' cur rest = Inr n"
proof (induction rest arbitrary: cur)
  case Nil
  then show ?case by (auto simp: extends_def split: option.splits)
next
  case (Cons c cs)
  from Cons.prems(2) have d: "lookup s cur = Some Dir" and t: "traverse s (cur @ [c]) cs = Inr n"
    by (auto split: option.splits node.splits)
  from d Cons.prems(1) have "lookup s' cur = Some Dir" by (simp add: extends_def)
  with Cons.IH [OF Cons.prems(1) t] show ?case by simp
qed

lemma stat_extends: "extends s s' \<Longrightarrow> stat s k = Inr n \<Longrightarrow> stat s' k = Inr n"
  by (simp add: stat_def traverse_extends)

lemma readFile_extends:
  assumes "extends s s'" "readFile s p = Inr d"
  shows "readFile s' p = Inr d"
proof -
  from assms(2) have "stat s (resolve s p) = Inr (File d)"
    by (auto simp: readFile_def split: sum.splits node.splits)
  with assms(1) have "stat s' (resolve s' p) = Inr (File d)"
    by (simp add: stat_extends extends_resolve)
  then show ?thesis by (simp add: readFile_def)
qed

lemma stat_File_parent:
  assumes "stat s k = Inr (File d)"
  shows "k \<noteq> [] \<and> stat s (butlast k) = Inr Dir \<and> lookup s k = Some (File d)"
proof -
  have ne: "k \<noteq> []" using assms by (auto simp: stat_def lookup_def)
  then have k: "k = butlast k @ [last k]" by simp
  from assms have "traverse s [] (butlast k @ [last k]) = Inr (File d)"
    using k by (simp add: stat_def)
  then have "traverse s [] (butlast k) = Inr Dir \<and> lookup s (butlast k @ [last k]) = Some (File d)"
    by (auto simp: traverse_append split: sum.splits node.splits option.splits)
  with ne k show ?thesis by (simp add: stat_def)
qed

lemma stat_parent_child:
  assumes "k \<noteq> []" "stat s (butlast k) = Inr Dir" "lookup s k = Some n"
  shows "stat s k = Inr n"
proof -
  from assms(1) have k: "k = butlast k @ [last k]" by simp
  from assms(3) k have "lookup s (butlast k @ [last k]) = Some n" by simp
  with assms(2) have "traverse s [] (butlast k @ [last k]) = Inr n"
    by (simp add: traverse_append stat_def)
  with k show ?thesis by (simp add: stat_def)
qed

subsection \<open>Creating directories\<close>

lemma all_dirs_extends: "extends s s' \<Longrightarrow> all_dirs s cur rest \<Longrightarrow> all_dirs s' cur rest"
  by (induction rest arbitrary: cur) (auto simp: extends_def)

lemma mkdirs_extends: "extends s (snd (mkdirs cur rest s))"
proof (induction rest arbitrary: cur s)
  case Nil
  show ?case by (simp add: extends_refl)
next
  case (Cons c cs)
  show ?case
  proof (cases "lookup s (cur @ [c])")
    case None
    have "extends (add_node (cur @ [c]) Dir s) (snd (mkdirs (cur @ [c]) cs (add_node (cur @ [c]) Dir s)))"
      by (rule Cons.IH)
    with extends_add_node [of s "cur @ [c]" Dir] None show ?thesis
      by (auto intro: extends_trans)
  next
    case (Some n)
    then show ?thesis using Cons.IH [of s "cur @ [c]"]
      by (cases n) (auto simp: extends_refl)
  qed
qed

lemma mkdirs_all_dirs: "mkdirs cur rest s = (None, s') \<Longrightarrow> all_dirs s' cur rest"
proof (induction rest arbitrary: cur s)
  case Nil
  show ?case by simp
next
  case (Cons c cs)
  let ?k = "cur @ [c]"
  show ?case
  proof (cases "lookup s ?k")
    case None
    with Cons.prems have m: "mkdirs ?k cs (add_node ?k Dir s) = (None, s')" by simp
    have "lookup (add_node ?k Dir s) ?k = Some Dir" using None by (rule lookup_add_node_new)
    moreover have "extends (add_node ?k Dir s) s'"
      using mkdirs_extends [of "add_node ?k Dir s" ?k cs] m by simp
    ultimately have "lookup s' ?k = Some Dir" by (simp add: extends_def)
    with Cons.IH [OF m] show ?thesis by simp
  next
    case (Some n)
    with Cons.prems have n: "n = Dir" and m: "mkdirs ?k cs s = (None, s')"
      by (cases n; simp)+
    have "extends s s'" using mkdirs_extends [of s ?k cs] m by simp
    with Some n have "lookup s' ?k = Some Dir" by (simp add: extends_def)
    with Cons.IH [OF m] show ?thesis by simp
  qed
qed

lemma all_dirs_mkdirs: "all_dirs s cur rest \<Longrightarrow> mkdirs cur rest s = (None, s)"
  by (induction rest arbitrary: cur) auto

lemma mkdirs_only_dirs:
  "lookup (snd (mkdirs cur rest s)) k = Some n \<Longrightarrow> lookup s k = Some n \<or> n = Dir"
proof (induction rest arbitrary: cur s)
  case Nil
  then show ?case by simp
next
  case (Cons c cs)
  show ?case
  proof (cases "lookup s (cur @ [c])")
    case None
    with Cons.prems have
      "lookup (snd (mkdirs (cur @ [c]) cs (add_node (cur @ [c]) Dir s))) k = Some n" by simp
    from Cons.IH [OF this] show ?thesis using lookup_add_node_cases [of "cur @ [c]" Dir s k n]
      by auto
  next
    case (Some m)
    with Cons.prems Cons.IH [of "cur @ [c]" s] show ?thesis by (cases m) auto
  qed
qed

lemma ensureDir_extends: "extends s (snd (ensureDir p s))"
  using mkdirs_extends [of s "[]" "resolve s p"]
  by (auto simp: ensureDir_def mkdir_recursive_def split: prod.splits option.splits)

lemma ensureDir_ready: "ensureDir p s = (None, s') \<Longrightarrow> all_dirs s' [] (resolve s' p)"
proof -
  assume a: "ensureDir p s = (None, s')"
  then have m: "mkdirs [] (resolve s p) s = (None, s')"
    by (auto simp: ensureDir_def mkdir_recursive_def split: prod.splits option.splits)
  from ensureDir_extends [of s p] a have "resolve s' p = resolve s p"
    by (simp add: extends_resolve)
  with mkdirs_all_dirs [OF m] show ?thesis by simp
qed

lemma ready_ensureDir: "all_dirs s [] (resolve s p) \<Longrightarrow> ensureDir p s = (None, s)"
  by (simp add: ensureDir_def mkdir_recursive_def all_dirs_mkdirs)

lemma ensureDir_only_dirs:
  "lookup (snd (ensureDir p s)) k = Some n \<Longrightarrow> lookup s k = Some n \<or> n = Dir"
  using mkdirs_only_dirs [of "[]" "resolve s p" s k n]
  by (auto simp: ensureDir_def mkdir_recursive_def split: prod.splits option.splits)

declare tryWriteFile.simps [simp del]

lemma traverse_not_EEXIST: "traverse s cur rest \<noteq> Inl EEXIST"
  by (induction rest arbitrary: cur) (auto split: option.splits node.splits)

lemma writeFile_wx_created:
  "writeFile_wx p d s = (None, s') \<Longrightarrow>
     resolve s p \<noteq> [] \<and> lookup s (resolve s p) = None
     \<and> stat s (butlast (resolve s p)) = Inr Dir
     \<and> s' = add_node (resolve s p) (File d) s"
  by (auto simp: writeFile_wx_def Let_def split: if_splits sum.splits node.splits option.splits)

lemma writeFile_wx_EEXIST:
  "writeFile_wx p d s = (Some EEXIST, s') \<Longrightarrow> s' = s \<and> lookup s (resolve s p) \<noteq> None"
  using traverse_not_EEXIST [of s "[]" "butlast (resolve s p)"]
  by (auto simp: writeFile_wx_def Let_def stat_def lookup_def
      split: if_splits sum.splits node.splits option.splits)

lemma writeFile_wx_failed: "writeFile_wx p d s = (Some e, s') \<Longrightarrow> s' = s"
  by (auto simp: writeFile_wx_def Let_def split: if_splits sum.splits node.splits option.splits)

lemma writeFile_wx_extends: "extends s (snd (writeFile_wx p d s))"
proof (cases "writeFile_wx p d s")
  case (Pair r s')
  show ?thesis
  proof (cases r)
    case None
    with Pair writeFile_wx_created [of p d s s'] show ?thesis
      by (simp add: extends_add_node)
  next
    case (Some e)
    with Pair writeFile_wx_failed [of p d s e s'] show ?thesis
      by (simp add: extends_refl)
  qed
qed

lemma writeFile_wx_exists:
  assumes "stat s (resolve s p) = Inr n"
  shows "writeFile_wx p d s = (Some EEXIST, s)"
proof (cases "resolve s p = []")
  case True
  then show ?thesis by (simp add: writeFile_wx_def)
next
  case False
  then have k: "resolve s p = butlast (resolve s p) @ [last (resolve s p)]" by simp
  from assms have "traverse s [] (butlast (resolve s p) @ [last (resolve s p)]) = Inr n"
    using k by (simp add: stat_def)
  then have "traverse s [] (butlast (resolve s p)) = Inr Dir
      \<and> lookup s (butlast (resolve s p) @ [last (resolve s p)]) = Some n"
    by (auto simp: traverse_append split: sum.splits node.splits option.splits)
  with k False show ?thesis by (simp add: writeFile_wx_def stat_def)
qed

lemma readFile_after_create:
  assumes "writeFile_wx p d s = (None, s')"
  shows "readFile s' p = Inr d"
proof -
  let ?k = "resolve s p"
  from writeFile_wx_created [OF assms] have
    h: "?k \<noteq> []" "lookup s ?k = None" "stat s (butlast ?k) = Inr Dir"
      "s' = add_node ?k (File d) s" by simp_all
  have ext: "extends s s'" using h(4) by (simp add: extends_add_node)
  have "stat s' (butlast ?k) = Inr Dir" using ext h(3) by (rule stat_extends)
  moreover have "lookup s' ?k = Some (File d)" using h(2,4) by (simp add: lookup_add_node_new)
  ultimately have "stat s' ?k = Inr (File d)" using h(1) by (simp add: stat_parent_child)
  moreover have "resolve s' p = ?k" using ext by (rule extends_resolve)
  ultimately show ?thesis by (simp add: readFile_def)
qed

lemma tryWriteFile_extends: "extends s (snd (tryWriteFile fullPath sourceCode counter s))"
proof (induction "1001 - counter" arbitrary: counter)
  case 0
  then show ?case by (simp add: tryWriteFile.simps extends_refl)
next
  case (Suc n)
  then have le: "counter \<le> 1000" and m: "n = 1001 - (counter + 1)" by arith+
  let ?t = "generateFileName fullPath counter"
  show ?case
  proof (cases "writeFile_wx ?t sourceCode s")
    case (Pair r s')
    show ?thesis
    proof (cases r)
      case None
      with Pair le writeFile_wx_extends [of s ?t sourceCode] show ?thesis
        by (simp add: tryWriteFile.simps [of fullPath sourceCode counter])
    next
      case (Some e)
      with Pair have s': "s' = s" by (simp add: writeFile_wx_failed)
      from Suc.hyps(1) [OF m] have ih: "extends s (snd (tryWriteFile fullPath sourceCode (counter + 1) s))" .
      from Pair Some s' le ih show ?thesis
        by (auto simp: tryWriteFile.simps [of fullPath sourceCode counter] extends_refl
            split: sum.splits)
    qed
  qed
qed

lemma writeSourceWithMerge_extends:
  "extends s (snd (writeSourceWithMerge filePath sourceCode outputRoot s))"
proof -
  let ?full = "path_join outputRoot filePath"
  obtain r s1 where e: "ensureDir (path_dirname ?full) s = (r, s1)" by (cases "ensureDir (path_dirname ?full) s")
  have e1: "extends s s1" using ensureDir_extends [of s "path_dirname ?full"] e by simp
  show ?thesis
  proof (cases r)
    case None
    with e have "snd (writeSourceWithMerge filePath sourceCode outputRoot s)
        = snd (tryWriteFile ?full sourceCode 0 s1)"
      by (simp add: writeSourceWithMerge_def Let_def)
    with e1 tryWriteFile_extends [of s1 ?full sourceCode 0] show ?thesis
      by (auto intro: extends_trans)
  next
    case (Some err)
    with e e1 show ?thesis by (simp add: writeSourceWithMerge_def Let_def)
  qed
qed

lemma writeSources_extends: "extends s (snd (writeSources entries outputRoot s))"
proof (induction entries arbitrary: s)
  case Nil
  show ?case by (simp add: extends_refl)
next
  case (Cons kv rest)
  obtain k v where kv: "kv = (k, v)" by (cases kv)
  obtain r s1 where w: "writeSourceWithMerge k v outputRoot s = (r, s1)"
    by (cases "writeSourceWithMerge k v outputRoot s")
  have e1: "extends s s1" using writeSourceWithMerge_extends [of s k v outputRoot] w by simp
  show ?case
  proof (cases r)
    case None
    with kv w e1 Cons.IH [of s1] show ?thesis by (auto intro: extends_trans)
  next
    case (Some err)
    with kv w e1 show ?thesis by simp
  qed
qed

lemma main_write_extends: "extends s (snd (main_write merging outputRoot entries remaps s))"
proof (cases "if \<not> merging then checkOutputDirectory outputRoot s else None")
  case (Some e)
  then show ?thesis by (simp add: main_write_def extends_refl)
next
  case None
  obtain r s1 where w: "writeSources entries outputRoot s = (r, s1)"
    by (cases "writeSources entries outputRoot s")
  have e1: "extends s s1" using writeSources_extends [of s entries outputRoot] w by simp
  show ?thesis
  proof (cases r)
    case (Some err)
    with None w e1 show ?thesis by (simp add: main_write_def)
  next
    case rn: None
    show ?thesis
    proof (cases remaps)
      case None
      with \<open>(if \<not> merging then checkOutputDirectory outputRoot s else None) = None\<close> w rn e1
      show ?thesis by (simp add: main_write_def)
    next
      case (Some rs)
      with \<open>(if \<not> merging then checkOutputDirectory outputRoot s else None) = None\<close> w rn
      have "snd (main_write merging outputRoot entries remaps s)
          = snd (writeSourceWithMerge ''remappings.txt'' (join_with [CHR 0x0A] rs) outputRoot s1)"
        by (simp add: main_write_def)
      with e1 writeSourceWithMerge_extends [of s1] show ?thesis
        by (auto intro: extends_trans)
    qed
  qed
qed

lemma stat_Dir_not_File: "lookup s k = Some Dir \<Longrightarrow> stat s k \<noteq> Inr (File d)"
  using stat_File_parent [of s k d] by auto

lemma readFile_stat: "readFile s p = Inr d \<longleftrightarrow> stat s (resolve s p) = Inr (File d)"
  by (auto simp: readFile_def split: sum.splits node.splits)

lemma tryWriteFile_failed:
  "tryWriteFile fullPath sourceCode counter s = (Some e, s') \<Longrightarrow> s' = s"
proof (induction "1001 - counter" arbitrary: counter)
  case 0
  then show ?case by (simp add: tryWriteFile.simps)
next
  case (Suc n)
  then have le: "counter \<le> 1000" and m: "n = 1001 - (counter + 1)" by arith+
  let ?t = "generateFileName fullPath counter"
  obtain r s1 where w: "writeFile_wx ?t sourceCode s = (r, s1)"
    by (cases "writeFile_wx ?t sourceCode s")
  show ?case
  proof (cases r)
    case None
    with w le Suc.prems show ?thesis
      by (simp add: tryWriteFile.simps [of fullPath sourceCode counter])
  next
    case (Some err)
    with w have s1: "s1 = s" by (simp add: writeFile_wx_failed)
    from Suc.hyps(1) [OF m] have
      ih: "tryWriteFile fullPath sourceCode (counter + 1) s = (Some e, s') \<Longrightarrow> s' = s" .
    from w Some s1 le Suc.prems ih show ?thesis
      by (auto simp: tryWriteFile.simps [of fullPath sourceCode counter]
          split: sum.splits if_splits)
  qed
qed

lemma tryWriteFile_from:
  assumes "1 \<le> counter" "tryWriteFile fullPath sourceCode counter s = (None, s')"
  shows "\<exists>N. counter \<le> N \<and> N \<le> 1000
            \<and> lookup s (resolve s (generateFileName fullPath N)) = None
            \<and> (\<forall>M. counter \<le> M \<and> M < N
                  \<longrightarrow> lookup s (resolve s (generateFileName fullPath M)) \<noteq> None)
            \<and> writeFile_wx (generateFileName fullPath N) sourceCode s = (None, s')"
  using assms
proof (induction "1001 - counter" arbitrary: counter)
  case 0
  then show ?case by (simp add: tryWriteFile.simps)
next
  case (Suc n)
  then have le: "counter \<le> 1000" and m: "n = 1001 - (counter + 1)" by arith+
  let ?t = "generateFileName fullPath counter"
  obtain r s1 where w: "writeFile_wx ?t sourceCode s = (r, s1)"
    by (cases "writeFile_wx ?t sourceCode s")
  show ?case
  proof (cases r)
    case None
    with w le Suc.prems have s1: "s1 = s'"
      by (simp add: tryWriteFile.simps [of fullPath sourceCode counter])
    from w None s1 writeFile_wx_created [of ?t sourceCode s s']
    have "lookup s (resolve s ?t) = None" by simp
    with w None s1 le have "counter \<le> counter \<and> counter \<le> 1000
        \<and> lookup s (resolve s (generateFileName fullPath counter)) = None
        \<and> (\<forall>M. counter \<le> M \<and> M < counter
              \<longrightarrow> lookup s (resolve s (generateFileName fullPath M)) \<noteq> None)
        \<and> writeFile_wx (generateFileName fullPath counter) sourceCode s = (None, s')"
      by auto
    then show ?thesis by blast
  next
    case (Some err)
    with w have s1: "s1 = s" by (simp add: writeFile_wx_failed)
    from w Some s1 le Suc.prems have err: "err = EEXIST"
      and next_: "tryWriteFile fullPath sourceCode (counter + 1) s = (None, s')"
      by (auto simp: tryWriteFile.simps [of fullPath sourceCode counter] split: if_splits)
    from w Some s1 err have ex: "lookup s (resolve s ?t) \<noteq> None"
      using writeFile_wx_EEXIST [of ?t sourceCode s s1] by simp
    from Suc.hyps(1) [OF m _ next_] obtain N where
      N: "counter + 1 \<le> N" "N \<le> 1000"
        "lookup s (resolve s (generateFileName fullPath N)) = None"
        "\<forall>M. counter + 1 \<le> M \<and> M < N
            \<longrightarrow> lookup s (resolve s (generateFileName fullPath M)) \<noteq> None"
        "writeFile_wx (generateFileName fullPath N) sourceCode s = (None, s')"
      by auto
    have "\<forall>M. counter \<le> M \<and> M < N
            \<longrightarrow> lookup s (resolve s (generateFileName fullPath M)) \<noteq> None"
    proof (intro allI impI)
      fix M assume "counter \<le> M \<and> M < N"
      then have "M = counter \<or> (counter + 1 \<le> M \<and> M < N)" by arith
      with ex N(4) show "lookup s (resolve s (generateFileName fullPath M)) \<noteq> None" by auto
    qed
    with N have "counter \<le> N \<and> N \<le> 1000
        \<and> lookup s (resolve s (generateFileName fullPath N)) = None
        \<and> (\<forall>M. counter \<le> M \<and> M < N
              \<longrightarrow> lookup s (resolve s (generateFileName fullPath M)) \<noteq> None)
        \<and> writeFile_wx (generateFileName fullPath N) sourceCode s = (None, s')"
      by simp
    then show ?thesis by blast
  qed
qed

lemma tryWriteFile_conflict:
  assumes "readFile s fullPath = Inr old" "old \<noteq> sourceCode"
  shows "tryWriteFile fullPath sourceCode 0 s = tryWriteFile fullPath sourceCode 1 s"
proof -
  from assms(1) have "stat s (resolve s fullPath) = Inr (File old)" by (simp add: readFile_stat)
  then have "writeFile_wx fullPath sourceCode s = (Some EEXIST, s)" by (rule writeFile_wx_exists)
  with assms show ?thesis
    by (simp add: tryWriteFile.simps [of fullPath sourceCode 0] generateFileName_def)
qed

lemma tryWriteFile_identical:
  assumes "readFile s fullPath = Inr sourceCode"
  shows "tryWriteFile fullPath sourceCode 0 s = (None, s)"
proof -
  from assms have "stat s (resolve s fullPath) = Inr (File sourceCode)" by (simp add: readFile_stat)
  then have "writeFile_wx fullPath sourceCode s = (Some EEXIST, s)" by (rule writeFile_wx_exists)
  with assms show ?thesis
    by (simp add: tryWriteFile.simps [of fullPath sourceCode 0] generateFileName_def)
qed

lemma writeSourceWithMerge_identical:
  assumes "all_dirs s [] (resolve s (path_dirname (path_join outputRoot k)))"
    and "readFile s (path_join outputRoot k) = Inr v"
  shows "writeSourceWithMerge k v outputRoot s = (None, s)"
  using assms
  by (simp add: writeSourceWithMerge_def Let_def ready_ensureDir tryWriteFile_identical)

lemma writeSourceWithMerge_dirs:
  assumes "writeSourceWithMerge k v outputRoot s = (None, s')"
  shows "all_dirs s' [] (resolve s' (path_dirname (path_join outputRoot k)))"
proof -
  let ?d = "path_dirname (path_join outputRoot k)"
  obtain r s1 where e: "ensureDir ?d s = (r, s1)" by (cases "ensureDir ?d s")
  with assms have r: "r = None" and t: "tryWriteFile (path_join outputRoot k) v 0 s1 = (None, s')"
    by (auto simp: writeSourceWithMerge_def Let_def split: option.splits)
  from e r have "all_dirs s1 [] (resolve s1 ?d)" by (simp add: ensureDir_ready)
  moreover have ext: "extends s1 s'"
    using tryWriteFile_extends [of s1 "path_join outputRoot k" v 0] t by simp
  ultimately show ?thesis by (simp add: all_dirs_extends extends_resolve)
qed

lemma writeSources_dirs:
  "writeSources entries outputRoot s = (None, s1) \<Longrightarrow> (k, v) \<in> set entries \<Longrightarrow>
     all_dirs s1 [] (resolve s1 (path_dirname (path_join outputRoot k)))"
proof (induction entries arbitrary: s)
  case Nil
  then show ?case by simp
next
  case (Cons kv rest)
  obtain k0 v0 where kv: "kv = (k0, v0)" by (cases kv)
  obtain r sa where w: "writeSourceWithMerge k0 v0 outputRoot s = (r, sa)"
    by (cases "writeSourceWithMerge k0 v0 outputRoot s")
  with Cons.prems(1) kv have r: "r = None" and rest: "writeSources rest outputRoot sa = (None, s1)"
    by (auto split: option.splits)
  show ?case
  proof (cases "(k, v) \<in> set rest")
    case True
    from Cons.IH [OF rest True] show ?thesis .
  next
    case False
    with Cons.prems(2) kv have "k = k0" by auto
    with w r have "all_dirs sa [] (resolve sa (path_dirname (path_join outputRoot k)))"
      by (simp add: writeSourceWithMerge_dirs)
    moreover have "extends sa s1" using writeSources_extends [of sa rest outputRoot] rest by simp
    ultimately show ?thesis by (simp add: all_dirs_extends extends_resolve)
  qed
qed

lemma writeSources_identical:
  "list_all (\<lambda>(k, v). writeSourceWithMerge k v outputRoot s = (None, s)) entries \<Longrightarrow>
     writeSources entries outputRoot s = (None, s)"
  by (induction entries) auto

lemmas path_eval =
  path_join_def path_normalize_def path_dirname_def is_absolute_def Let_def
lemmas sys_eval =
  ensureDir_def mkdir_recursive_def readFile_def writeFile_wx_def readdir_def opendir_def
  stat_def resolve_def is_absolute_def lookup_def add_node_def
lemmas name_eval = generateFileName_def extension_of_def digit_char_def Let_def


lemma readdir_lists_entry:
  assumes "opendir s outputRoot = Inr d"
    and "(k, n) \<in> set (nodes s)" "k \<noteq> []" "butlast k = d"
  shows "\<exists>files. readdir s outputRoot = Inr files \<and> last k \<in> set files"
proof -
  let ?sel = "filter (\<lambda>(k, n). k \<noteq> [] \<and> butlast k = d) (nodes s)"
  from assms(2-4) have "(k, n) \<in> set ?sel" by simp
  then have "last k \<in> set (map (\<lambda>(k, n). last k) ?sel)" by force
  with assms(1) show ?thesis by (simp add: readdir_def)
qed

lemma strict_refuses_opened:
  assumes "opendir s outputRoot = Inr d"
    and "(k, n) \<in> set (nodes s)" "k \<noteq> []" "butlast k = d"
  shows "main_write False outputRoot entries remaps s = (Some DestinationNotEmpty, s)"
proof -
  from readdir_lists_entry [OF assms] obtain files where
    "readdir s outputRoot = Inr files" "last k \<in> set files" by blast
  then have "checkOutputDirectory outputRoot s = Some DestinationNotEmpty"
    by (cases files) (simp_all add: checkOutputDirectory_def)
  then show ?thesis by (simp add: main_write_def)
qed

lemma strict_passes_absent:
  assumes "readdir s outputRoot = Inl ENOENT"
  shows "checkOutputDirectory outputRoot s = None"
    and "main_write False outputRoot entries remaps s
           = main_write True outputRoot entries remaps s"
  using assms by (simp_all add: main_write_def checkOutputDirectory_def)

lemma main_write_parts:
  assumes "main_write merging outputRoot entries remaps s = (None, s')"
  shows "\<exists>s1. writeSources entries outputRoot s = (None, s1)
          \<and> (remaps = None \<longrightarrow> s' = s1)
          \<and> (\<forall>rs. remaps = Some rs \<longrightarrow>
                writeSourceWithMerge ''remappings.txt'' (join_with [CHR 0x0A] rs) outputRoot s1
                  = (None, s'))"
proof -
  from assms have c: "(if \<not> merging then checkOutputDirectory outputRoot s else None) = None"
    by (cases "if \<not> merging then checkOutputDirectory outputRoot s else None")
       (simp_all add: main_write_def)
  obtain r s1 where w: "writeSources entries outputRoot s = (r, s1)"
    by (cases "writeSources entries outputRoot s")
  from assms c w have r: "r = None" by (cases r) (simp_all add: main_write_def)
  from assms c w r show ?thesis by (cases remaps) (simp_all add: main_write_def)
qed

lemma tryWriteFile_0_created:
  "writeFile_wx fullPath c s = (None, sb) \<Longrightarrow> tryWriteFile fullPath c 0 s = (None, sb)"
  by (simp add: tryWriteFile.simps [of fullPath c 0] generateFileName_def)

lemma tryWriteFile_0_other_error:
  "writeFile_wx fullPath c s = (Some err, sb) \<Longrightarrow> err \<noteq> EEXIST \<Longrightarrow>
     tryWriteFile fullPath c 0 s = (Some (FsError err), sb)"
  by (simp add: tryWriteFile.simps [of fullPath c 0] generateFileName_def)

lemma tryWriteFile_0_unreadable:
  "writeFile_wx fullPath c s = (Some EEXIST, sb) \<Longrightarrow> readFile sb fullPath = Inl e \<Longrightarrow>
     tryWriteFile fullPath c 0 s = (Some (FsError e), sb)"
  by (simp add: tryWriteFile.simps [of fullPath c 0] generateFileName_def)

lemma writeSourceWithMerge_split:
  assumes "writeSourceWithMerge k c outputRoot s = (None, s')"
  shows "\<exists>sa. ensureDir (path_dirname (path_join outputRoot k)) s = (None, sa)
           \<and> tryWriteFile (path_join outputRoot k) c 0 sa = (None, s')"
proof -
  obtain r sa where e: "ensureDir (path_dirname (path_join outputRoot k)) s = (r, sa)"
    by (cases "ensureDir (path_dirname (path_join outputRoot k)) s")
  with assms show ?thesis
    by (cases r) (simp_all add: writeSourceWithMerge_def Let_def)
qed

lemma writeSourceWithMerge_fresh:
  assumes "writeSourceWithMerge k c outputRoot s = (None, s')"
    and "lookup s (resolve s (path_join outputRoot k)) = None"
  shows "readFile s' (path_join outputRoot k) = Inr c"
proof -
  let ?full = "path_join outputRoot k"
  from writeSourceWithMerge_split [OF assms(1)] obtain sa where
    e: "ensureDir (path_dirname ?full) s = (None, sa)"
    and t: "tryWriteFile ?full c 0 sa = (None, s')" by blast
  have ext: "extends s sa" using ensureDir_extends [of s "path_dirname ?full"] e by simp
  then have res: "resolve sa ?full = resolve s ?full" by (rule extends_resolve)
  obtain w sb where wf: "writeFile_wx ?full c sa = (w, sb)" by (cases "writeFile_wx ?full c sa")
  show ?thesis
  proof (cases w)
    case None
    with wf have "tryWriteFile ?full c 0 sa = (None, sb)" by (simp add: tryWriteFile_0_created)
    with t have "sb = s'" by simp
    with wf None show ?thesis by (simp add: readFile_after_create)
  next
    case (Some err)
    have err: "err = EEXIST"
    proof (rule ccontr)
      assume "err \<noteq> EEXIST"
      with wf Some have "tryWriteFile ?full c 0 sa = (Some (FsError err), sb)"
        by (simp add: tryWriteFile_0_other_error)
      with t show False by simp
    qed
    from wf Some err have x: "writeFile_wx ?full c sa = (Some EEXIST, sb)" by simp
    from writeFile_wx_EEXIST [OF x] have sb: "sb = sa"
      and ex: "lookup sa (resolve sa ?full) \<noteq> None" by simp_all
    from ex res obtain n where n: "lookup sa (resolve s ?full) = Some n" by auto
    have "lookup (snd (ensureDir (path_dirname ?full) s)) (resolve s ?full) = Some n"
      using e n by simp
    from ensureDir_only_dirs [OF this] assms(2) have "n = Dir" by simp
    with n res have "lookup sa (resolve sa ?full) = Some Dir" by simp
    then have "\<And>d. stat sa (resolve sa ?full) \<noteq> Inr (File d)"
      by (rule stat_Dir_not_File)
    then have "\<And>d. readFile sa ?full \<noteq> Inr d" by (simp add: readFile_stat)
    then obtain e' where "readFile sa ?full = Inl e'" by (cases "readFile sa ?full") auto
    with x sb have "tryWriteFile ?full c 0 sa = (Some (FsError e'), sb)"
      by (simp add: tryWriteFile_0_unreadable)
    with t show ?thesis by simp
  qed
qed

lemmas write_eval =
  main_write_def checkOutputDirectory_def writeSourceWithMerge_def tryWriteFile.simps
  path_eval sys_eval name_eval

section \<open>The claims about the written files\<close>

text \<open>
  C6, as stated: \<^verbatim>\<open>remappings.txt\<close> is written only if the remappings are
  present and not empty. The test in \<^verbatim>\<open>main\<close> is \<^verbatim>\<open>if (remappings)\<close>,
  and an empty array is truthy: with \<^verbatim>\<open>remappings = []\<close> an empty
  \<^verbatim>\<open>remappings.txt\<close> is written.
\<close>

theorem remappings_file_counterexample:
  "main_write False ''out'' [(''A.sol'', ''x'')] (Some [])
     \<lparr>cwd = [''w''], nodes = [([''w''], Dir)]\<rparr>
   = (None, \<lparr>cwd = [''w''],
             nodes = [([''w''], Dir), ([''w'', ''out''], Dir),
                      ([''w'', ''out'', ''A.sol''], File ''x''),
                      ([''w'', ''out'', ''remappings.txt''], File [])]\<rparr>)"
  by (simp add: write_eval)

text \<open>
  C6, amended: in a run that succeeds, nothing is written after the source files when the
  remappings are missing; when they are present (an empty sequence too), their strings
  joined by newlines are written as the file \<^verbatim>\<open>remappings.txt\<close> of the
  destination root under the merge rule: if nothing exists at that path the file is
  created with exactly that content, and a \<^verbatim>\<open>remappings.txt\<close> that is already
  there keeps its content.
\<close>

theorem remappings_file:
  assumes "main_write merging outputRoot entries remaps s = (None, s')"
  shows "\<exists>s1. writeSources entries outputRoot s = (None, s1)
          \<and> (remaps = None \<longrightarrow> s' = s1)
          \<and> (\<forall>rs. remaps = Some rs \<longrightarrow>
                writeSourceWithMerge ''remappings.txt'' (join_with [CHR 0x0A] rs) outputRoot s1
                  = (None, s')
                \<and> (lookup s1 (resolve s1 (path_join outputRoot ''remappings.txt'')) = None
                     \<longrightarrow> readFile s' (path_join outputRoot ''remappings.txt'')
                          = Inr (join_with [CHR 0x0A] rs))
                \<and> (\<forall>d. readFile s1 (path_join outputRoot ''remappings.txt'') = Inr d
                     \<longrightarrow> readFile s' (path_join outputRoot ''remappings.txt'') = Inr d))"
proof -
  from main_write_parts [OF assms] obtain s1 where
    p: "writeSources entries outputRoot s = (None, s1)" "remaps = None \<longrightarrow> s' = s1"
      "\<forall>rs. remaps = Some rs \<longrightarrow>
         writeSourceWithMerge ''remappings.txt'' (join_with [CHR 0x0A] rs) outputRoot s1 = (None, s')"
    by blast
  have "\<forall>rs. remaps = Some rs \<longrightarrow>
                writeSourceWithMerge ''remappings.txt'' (join_with [CHR 0x0A] rs) outputRoot s1
                  = (None, s')
                \<and> (lookup s1 (resolve s1 (path_join outputRoot ''remappings.txt'')) = None
                     \<longrightarrow> readFile s' (path_join outputRoot ''remappings.txt'')
                          = Inr (join_with [CHR 0x0A] rs))
                \<and> (\<forall>d. readFile s1 (path_join outputRoot ''remappings.txt'') = Inr d
                     \<longrightarrow> readFile s' (path_join outputRoot ''remappings.txt'') = Inr d)"
  proof (intro allI impI conjI)
    fix rs assume rs: "remaps = Some rs"
    with p(3) show w: "writeSourceWithMerge ''remappings.txt'' (join_with [CHR 0x0A] rs) outputRoot s1
        = (None, s')" by simp
    { assume "lookup s1 (resolve s1 (path_join outputRoot ''remappings.txt'')) = None"
      with w show "readFile s' (path_join outputRoot ''remappings.txt'')
          = Inr (join_with [CHR 0x0A] rs)" by (rule writeSourceWithMerge_fresh) }
    { fix d assume "readFile s1 (path_join outputRoot ''remappings.txt'') = Inr d"
      moreover have "extends s1 s'"
        using writeSourceWithMerge_extends [of s1 "''remappings.txt''" "join_with [CHR 0x0A] rs" outputRoot] w
        by simp
      ultimately show "readFile s' (path_join outputRoot ''remappings.txt'') = Inr d"
        by (simp add: readFile_extends) }
  qed
  with p(1,2) show ?thesis by blast
qed

theorem remappings_file_witness:
  "main_write False ''out'' [(''A.sol'', ''x'')] (Some [''@a/=lib/a/'', ''@b/=lib/b/''])
     \<lparr>cwd = [''w''], nodes = [([''w''], Dir)]\<rparr>
   = (None, \<lparr>cwd = [''w''],
             nodes = [([''w''], Dir), ([''w'', ''out''], Dir),
                      ([''w'', ''out'', ''A.sol''], File ''x''),
                      ([''w'', ''out'', ''remappings.txt''],
                       File (''@a/=lib/a/'' @ [CHR 0x0A] @ ''@b/=lib/b/''))]\<rparr>)
   \<and> readFile \<lparr>cwd = [''w''],
             nodes = [([''w''], Dir), ([''w'', ''out''], Dir),
                      ([''w'', ''out'', ''A.sol''], File ''x''),
                      ([''w'', ''out'', ''remappings.txt''],
                       File (''@a/=lib/a/'' @ [CHR 0x0A] @ ''@b/=lib/b/''))]\<rparr>
        (path_join ''out'' ''remappings.txt'')
     = Inr (join_with [CHR 0x0A] [''@a/=lib/a/'', ''@b/=lib/b/''])"
proof -
  let ?E = "\<lparr>cwd = [''w''], nodes = [([''w''], Dir)]\<rparr>"
  let ?S1 = "\<lparr>cwd = [''w''],
             nodes = [([''w''], Dir), ([''w'', ''out''], Dir),
                      ([''w'', ''out'', ''A.sol''], File ''x'')]\<rparr>"
  let ?S2 = "\<lparr>cwd = [''w''],
             nodes = [([''w''], Dir), ([''w'', ''out''], Dir),
                      ([''w'', ''out'', ''A.sol''], File ''x''),
                      ([''w'', ''out'', ''remappings.txt''],
                       File (''@a/=lib/a/'' @ [CHR 0x0A] @ ''@b/=lib/b/''))]\<rparr>"
  let ?rs = "[''@a/=lib/a/'', ''@b/=lib/b/'']"
  have run: "main_write False ''out'' [(''A.sol'', ''x'')] (Some ?rs) ?E = (None, ?S2)"
    by (simp add: write_eval)
  have ws: "writeSources [(''A.sol'', ''x'')] ''out'' ?E = (None, ?S1)"
    by (simp add: write_eval)
  have free: "lookup ?S1 (resolve ?S1 (path_join ''out'' ''remappings.txt'')) = None"
    by (simp add: path_eval sys_eval)
  from remappings_file [OF run] ws
  have "lookup ?S1 (resolve ?S1 (path_join ''out'' ''remappings.txt'')) = None
      \<longrightarrow> readFile ?S2 (path_join ''out'' ''remappings.txt'') = Inr (join_with [CHR 0x0A] ?rs)"
    by auto
  with free have "readFile ?S2 (path_join ''out'' ''remappings.txt'') = Inr (join_with [CHR 0x0A] ?rs)"
    by blast
  with run show ?thesis by blast
qed

text \<open>
  C7. The claim: without \<^verbatim>\<open>--merge\<close>, a destination directory that exists and
  holds an entry is refused before anything is written. The program refuses the
  destination \<^verbatim>\<open>out\<close> that holds \<^verbatim>\<open>.gitkeep\<close>. Given the same
  directory as \<^verbatim>\<open>missing/../out\<close>, with no directory \<^verbatim>\<open>missing\<close>, it
  does not: \<^verbatim>\<open>checkOutputDirectory\<close> reads the directory at the path as typed
  and gets \<open>ENOENT\<close>, which it takes for an absent destination, while the writes
  go to \<^verbatim>\<open>join(outputRoot, key)\<close>, which is \<^verbatim>\<open>out/A.sol\<close>. The file is
  written into \<^verbatim>\<open>out\<close> beside \<^verbatim>\<open>.gitkeep\<close>.
\<close>

theorem strict_check_misses_unresolved_root:
  "readdir
     \<lparr>cwd = [''w''],
      nodes = [([''w''], Dir), ([''w'', ''out''], Dir), ([''w'', ''out'', ''.gitkeep''], File [])]\<rparr>
     ''out'' = Inr [''.gitkeep'']
   \<and> main_write False ''out'' [(''A.sol'', ''x'')] None
     \<lparr>cwd = [''w''],
      nodes = [([''w''], Dir), ([''w'', ''out''], Dir), ([''w'', ''out'', ''.gitkeep''], File [])]\<rparr>
     = (Some DestinationNotEmpty,
        \<lparr>cwd = [''w''],
         nodes = [([''w''], Dir), ([''w'', ''out''], Dir),
                  ([''w'', ''out'', ''.gitkeep''], File [])]\<rparr>)
   \<and> readdir
     \<lparr>cwd = [''w''],
      nodes = [([''w''], Dir), ([''w'', ''out''], Dir), ([''w'', ''out'', ''.gitkeep''], File [])]\<rparr>
     ''missing/../out'' = Inl ENOENT
   \<and> path_join ''missing/../out'' ''A.sol'' = ''out/A.sol''
   \<and> main_write False ''missing/../out'' [(''A.sol'', ''x'')] None
     \<lparr>cwd = [''w''],
      nodes = [([''w''], Dir), ([''w'', ''out''], Dir), ([''w'', ''out'', ''.gitkeep''], File [])]\<rparr>
     = (None,
        \<lparr>cwd = [''w''],
         nodes = [([''w''], Dir), ([''w'', ''out''], Dir),
                  ([''w'', ''out'', ''.gitkeep''], File []),
                  ([''w'', ''out'', ''A.sol''], File ''x'')]\<rparr>)"
  by (simp add: write_eval)

text \<open>
  C8, as stated: writing a bundle twice under the merge policy leaves the destination
  unchanged after the second run. When the destination already held \<^verbatim>\<open>A.sol\<close>
  with other content, the first run writes \<^verbatim>\<open>A.conflict1.sol\<close> and the second
  run adds \<^verbatim>\<open>A.conflict2.sol\<close>: the content is compared with the file at the
  original path only. The same happens from an empty destination when two keys of the
  bundle, \<^verbatim>\<open>A.sol\<close> and \<^verbatim>\<open>./A.sol\<close>, name one path with different
  content.
\<close>

theorem merge_rerun_unchanged_counterexample:
  "main_write True ''out'' [(''A.sol'', ''new'')] None
     \<lparr>cwd = [''w''],
      nodes = [([''w''], Dir), ([''w'', ''out''], Dir), ([''w'', ''out'', ''A.sol''], File ''old'')]\<rparr>
   = (None,
      \<lparr>cwd = [''w''],
       nodes = [([''w''], Dir), ([''w'', ''out''], Dir), ([''w'', ''out'', ''A.sol''], File ''old''),
                ([''w'', ''out'', ''A.conflict1.sol''], File ''new'')]\<rparr>)
   \<and> main_write True ''out'' [(''A.sol'', ''new'')] None
     \<lparr>cwd = [''w''],
      nodes = [([''w''], Dir), ([''w'', ''out''], Dir), ([''w'', ''out'', ''A.sol''], File ''old''),
               ([''w'', ''out'', ''A.conflict1.sol''], File ''new'')]\<rparr>
   = (None,
      \<lparr>cwd = [''w''],
       nodes = [([''w''], Dir), ([''w'', ''out''], Dir), ([''w'', ''out'', ''A.sol''], File ''old''),
                ([''w'', ''out'', ''A.conflict1.sol''], File ''new''),
                ([''w'', ''out'', ''A.conflict2.sol''], File ''new'')]\<rparr>)
   \<and> main_write True ''out'' [(''A.sol'', ''x''), (''./A.sol'', ''y'')] None
     \<lparr>cwd = [''w''], nodes = [([''w''], Dir)]\<rparr>
   = (None,
      \<lparr>cwd = [''w''],
       nodes = [([''w''], Dir), ([''w'', ''out''], Dir), ([''w'', ''out'', ''A.sol''], File ''x''),
                ([''w'', ''out'', ''A.conflict1.sol''], File ''y'')]\<rparr>)
   \<and> main_write True ''out'' [(''A.sol'', ''x''), (''./A.sol'', ''y'')] None
     \<lparr>cwd = [''w''],
      nodes = [([''w''], Dir), ([''w'', ''out''], Dir), ([''w'', ''out'', ''A.sol''], File ''x''),
               ([''w'', ''out'', ''A.conflict1.sol''], File ''y'')]\<rparr>
   = (None,
      \<lparr>cwd = [''w''],
       nodes = [([''w''], Dir), ([''w'', ''out''], Dir), ([''w'', ''out'', ''A.sol''], File ''x''),
                ([''w'', ''out'', ''A.conflict1.sol''], File ''y''),
                ([''w'', ''out'', ''A.conflict2.sol''], File ''y'')]\<rparr>)"
  by (simp add: write_eval)

text \<open>
  C8, amended: when a first run under the merge policy has succeeded and has left every
  file of the bundle (and \<^verbatim>\<open>remappings.txt\<close>, if there are remappings) under
  its own path with the content of the bundle, a second run of the same bundle into the
  same destination succeeds and leaves the file system exactly as it was: every file is
  skipped as identical.
\<close>

theorem merge_rerun_unchanged:
  assumes "main_write True outputRoot entries remaps s0 = (None, s1)"
    and "list_all (\<lambda>(k, v). readFile s1 (path_join outputRoot k) = Inr v)
           (entries @ (case remaps of None \<Rightarrow> []
                       | Some rs \<Rightarrow> [(''remappings.txt'', join_with [CHR 0x0A] rs)]))"
  shows "main_write True outputRoot entries remaps s1 = (None, s1)"
proof -
  from main_write_parts [OF assms(1)] obtain sa where
    p: "writeSources entries outputRoot s0 = (None, sa)" "remaps = None \<longrightarrow> s1 = sa"
      "\<forall>rs. remaps = Some rs \<longrightarrow>
         writeSourceWithMerge ''remappings.txt'' (join_with [CHR 0x0A] rs) outputRoot sa = (None, s1)"
    by blast
  have ext: "extends sa s1"
  proof (cases remaps)
    case None
    with p(2) show ?thesis by (simp add: extends_refl)
  next
    case (Some rs)
    with p(3) writeSourceWithMerge_extends [of sa "''remappings.txt''" "join_with [CHR 0x0A] rs" outputRoot]
    show ?thesis by simp
  qed
  have each: "list_all (\<lambda>(k, v). writeSourceWithMerge k v outputRoot s1 = (None, s1)) entries"
    unfolding list_all_iff
  proof (intro ballI)
    fix kv assume m: "kv \<in> set entries"
    obtain k v where kv: "kv = (k, v)" by (cases kv)
    from m kv p(1) have "all_dirs sa [] (resolve sa (path_dirname (path_join outputRoot k)))"
      by (simp add: writeSources_dirs)
    with ext have d: "all_dirs s1 [] (resolve s1 (path_dirname (path_join outputRoot k)))"
      by (simp add: all_dirs_extends extends_resolve)
    from assms(2) m kv have "readFile s1 (path_join outputRoot k) = Inr v"
      by (auto simp: list_all_iff)
    with d kv show "case kv of (k, v) \<Rightarrow> writeSourceWithMerge k v outputRoot s1 = (None, s1)"
      by (simp add: writeSourceWithMerge_identical)
  qed
  then have ws: "writeSources entries outputRoot s1 = (None, s1)" by (rule writeSources_identical)
  show ?thesis
  proof (cases remaps)
    case None
    with ws show ?thesis by (simp add: main_write_def)
  next
    case (Some rs)
    with p(3) have "all_dirs s1 [] (resolve s1 (path_dirname (path_join outputRoot ''remappings.txt'')))"
      by (simp add: writeSourceWithMerge_dirs)
    moreover from assms(2) Some have
      "readFile s1 (path_join outputRoot ''remappings.txt'') = Inr (join_with [CHR 0x0A] rs)"
      by simp
    ultimately have "writeSourceWithMerge ''remappings.txt'' (join_with [CHR 0x0A] rs) outputRoot s1
        = (None, s1)" by (rule writeSourceWithMerge_identical)
    with ws Some show ?thesis by (simp add: main_write_def)
  qed
qed

theorem merge_rerun_unchanged_witness:
  "main_write True ''out'' [(''A.sol'', ''c1''), (''dir/B.sol'', ''c2'')] (Some [''@x/=lib/x/''])
     \<lparr>cwd = [''w''], nodes = [([''w''], Dir)]\<rparr>
   = (None,
      \<lparr>cwd = [''w''],
       nodes = [([''w''], Dir), ([''w'', ''out''], Dir), ([''w'', ''out'', ''A.sol''], File ''c1''),
                ([''w'', ''out'', ''dir''], Dir), ([''w'', ''out'', ''dir'', ''B.sol''], File ''c2''),
                ([''w'', ''out'', ''remappings.txt''], File ''@x/=lib/x/'')]\<rparr>)
   \<and> main_write True ''out'' [(''A.sol'', ''c1''), (''dir/B.sol'', ''c2'')] (Some [''@x/=lib/x/''])
      \<lparr>cwd = [''w''],
       nodes = [([''w''], Dir), ([''w'', ''out''], Dir), ([''w'', ''out'', ''A.sol''], File ''c1''),
                ([''w'', ''out'', ''dir''], Dir), ([''w'', ''out'', ''dir'', ''B.sol''], File ''c2''),
                ([''w'', ''out'', ''remappings.txt''], File ''@x/=lib/x/'')]\<rparr>
   = (None,
      \<lparr>cwd = [''w''],
       nodes = [([''w''], Dir), ([''w'', ''out''], Dir), ([''w'', ''out'', ''A.sol''], File ''c1''),
                ([''w'', ''out'', ''dir''], Dir), ([''w'', ''out'', ''dir'', ''B.sol''], File ''c2''),
                ([''w'', ''out'', ''remappings.txt''], File ''@x/=lib/x/'')]\<rparr>)"
proof -
  let ?E = "\<lparr>cwd = [''w''], nodes = [([''w''], Dir)]\<rparr>"
  let ?S = "\<lparr>cwd = [''w''],
       nodes = [([''w''], Dir), ([''w'', ''out''], Dir), ([''w'', ''out'', ''A.sol''], File ''c1''),
                ([''w'', ''out'', ''dir''], Dir), ([''w'', ''out'', ''dir'', ''B.sol''], File ''c2''),
                ([''w'', ''out'', ''remappings.txt''], File ''@x/=lib/x/'')]\<rparr>"
  let ?es = "[(''A.sol'', ''c1''), (''dir/B.sol'', ''c2'')]"
  have run: "main_write True ''out'' ?es (Some [''@x/=lib/x/'']) ?E = (None, ?S)"
    by (simp add: write_eval)
  have placed: "list_all (\<lambda>(k, v). readFile ?S (path_join ''out'' k) = Inr v)
      (?es @ (case Some [''@x/=lib/x/''] of None \<Rightarrow> []
              | Some rs \<Rightarrow> [(''remappings.txt'', join_with [CHR 0x0A] rs)]))"
    by (simp add: path_eval sys_eval)
  from merge_rerun_unchanged [OF run placed] run show ?thesis by simp
qed

text \<open>
  C9, as stated: the second of two bundles that share a path always ends in the
  \<^verbatim>\<open>.conflict1\<close> variant. When that variant's path is taken already, it does
  not. In a destination that held \<^verbatim>\<open>A.sol\<close> before, the first bundle goes to
  \<^verbatim>\<open>A.conflict1.sol\<close> and the second to \<^verbatim>\<open>A.conflict2.sol\<close>; and
  from an empty destination, when the first bundle itself has a file
  \<^verbatim>\<open>A.conflict1.sol\<close>, the second bundle's content goes to
  \<^verbatim>\<open>A.conflict2.sol\<close> as well.
\<close>

theorem conflict_safety_counterexample:
  "main_write True ''out'' [(''A.sol'', ''one'')] None
     \<lparr>cwd = [''w''],
      nodes = [([''w''], Dir), ([''w'', ''out''], Dir), ([''w'', ''out'', ''A.sol''], File ''zero'')]\<rparr>
   = (None,
      \<lparr>cwd = [''w''],
       nodes = [([''w''], Dir), ([''w'', ''out''], Dir), ([''w'', ''out'', ''A.sol''], File ''zero''),
                ([''w'', ''out'', ''A.conflict1.sol''], File ''one'')]\<rparr>)
   \<and> main_write True ''out'' [(''A.sol'', ''two'')] None
     \<lparr>cwd = [''w''],
      nodes = [([''w''], Dir), ([''w'', ''out''], Dir), ([''w'', ''out'', ''A.sol''], File ''zero''),
               ([''w'', ''out'', ''A.conflict1.sol''], File ''one'')]\<rparr>
   = (None,
      \<lparr>cwd = [''w''],
       nodes = [([''w''], Dir), ([''w'', ''out''], Dir), ([''w'', ''out'', ''A.sol''], File ''zero''),
                ([''w'', ''out'', ''A.conflict1.sol''], File ''one''),
                ([''w'', ''out'', ''A.conflict2.sol''], File ''two'')]\<rparr>)
   \<and> main_write True ''out'' [(''A.sol'', ''one''), (''A.conflict1.sol'', ''other'')] None
     \<lparr>cwd = [''w''], nodes = [([''w''], Dir)]\<rparr>
   = (None,
      \<lparr>cwd = [''w''],
       nodes = [([''w''], Dir), ([''w'', ''out''], Dir), ([''w'', ''out'', ''A.sol''], File ''one''),
                ([''w'', ''out'', ''A.conflict1.sol''], File ''other'')]\<rparr>)
   \<and> main_write True ''out'' [(''A.sol'', ''two'')] None
     \<lparr>cwd = [''w''],
       nodes = [([''w''], Dir), ([''w'', ''out''], Dir), ([''w'', ''out'', ''A.sol''], File ''one''),
                ([''w'', ''out'', ''A.conflict1.sol''], File ''other'')]\<rparr>
   = (None,
      \<lparr>cwd = [''w''],
       nodes = [([''w''], Dir), ([''w'', ''out''], Dir), ([''w'', ''out'', ''A.sol''], File ''one''),
                ([''w'', ''out'', ''A.conflict1.sol''], File ''other''),
                ([''w'', ''out'', ''A.conflict2.sol''], File ''two'')]\<rparr>)"
  by (simp add: write_eval)

text \<open>
  C9, amended: when a file is written under the merge policy to a path that holds a file
  of other content (in a directory that exists), no file that exists changes; if the
  write succeeds, exactly one file is added, holding the new content, under the variant
  name with \<^verbatim>\<open>.conflictN\<close> before the extension, where \<^verbatim>\<open>N\<close> is the
  least number from 1 to 1000 whose variant path is free (so \<^verbatim>\<open>.conflict1\<close>
  when that path is free); if the write fails, nothing is written. A whole run, under
  either policy, changes no file that exists.
\<close>

theorem conflict_safety:
  assumes "readFile s (path_join outputRoot filePath) = Inr old" and "old \<noteq> sourceCode"
    and "ensureDir (path_dirname (path_join outputRoot filePath)) s = (None, s)"
  shows "(\<forall>p d. readFile s p = Inr d
            \<longrightarrow> readFile (snd (writeSourceWithMerge filePath sourceCode outputRoot s)) p = Inr d)
       \<and> (fst (writeSourceWithMerge filePath sourceCode outputRoot s) = None \<longrightarrow>
            (\<exists>N. 1 \<le> N \<and> N \<le> 1000
               \<and> lookup s (resolve s (generateFileName (path_join outputRoot filePath) N)) = None
               \<and> (\<forall>M. 1 \<le> M \<and> M < N \<longrightarrow>
                     lookup s (resolve s (generateFileName (path_join outputRoot filePath) M)) \<noteq> None)
               \<and> snd (writeSourceWithMerge filePath sourceCode outputRoot s)
                   = add_node (resolve s (generateFileName (path_join outputRoot filePath) N))
                       (File sourceCode) s
               \<and> readFile (snd (writeSourceWithMerge filePath sourceCode outputRoot s))
                   (generateFileName (path_join outputRoot filePath) N) = Inr sourceCode))
       \<and> (fst (writeSourceWithMerge filePath sourceCode outputRoot s) = None
            \<and> lookup s (resolve s (generateFileName (path_join outputRoot filePath) 1)) = None \<longrightarrow>
              snd (writeSourceWithMerge filePath sourceCode outputRoot s)
                = add_node (resolve s (generateFileName (path_join outputRoot filePath) 1))
                    (File sourceCode) s)
       \<and> (fst (writeSourceWithMerge filePath sourceCode outputRoot s) \<noteq> None \<longrightarrow>
            snd (writeSourceWithMerge filePath sourceCode outputRoot s) = s)
       \<and> (\<forall>p d. readFile s p = Inr d
            \<longrightarrow> readFile (snd (main_write merging outputRoot entries remaps s)) p = Inr d)"
proof -
  let ?full = "path_join outputRoot filePath"
  obtain r s2 where Wr: "writeSourceWithMerge filePath sourceCode outputRoot s = (r, s2)"
    by (cases "writeSourceWithMerge filePath sourceCode outputRoot s")
  have "tryWriteFile ?full sourceCode 0 s = tryWriteFile ?full sourceCode 1 s"
    using assms(1,2) by (rule tryWriteFile_conflict)
  with assms(3) have "writeSourceWithMerge filePath sourceCode outputRoot s
      = tryWriteFile ?full sourceCode 1 s"
    by (simp add: writeSourceWithMerge_def Let_def)
  with Wr have t: "tryWriteFile ?full sourceCode 1 s = (r, s2)" by simp
  have ext: "extends s s2"
    using writeSourceWithMerge_extends [of s filePath sourceCode outputRoot] Wr by simp
  have frame: "\<forall>p d. readFile s p = Inr d \<longrightarrow> readFile s2 p = Inr d"
  proof (intro allI impI)
    fix p d assume "readFile s p = Inr d"
    with ext show "readFile s2 p = Inr d" by (rule readFile_extends)
  qed
  have created: "r = None \<longrightarrow>
            (\<exists>N. 1 \<le> N \<and> N \<le> 1000
               \<and> lookup s (resolve s (generateFileName ?full N)) = None
               \<and> (\<forall>M. 1 \<le> M \<and> M < N \<longrightarrow>
                     lookup s (resolve s (generateFileName ?full M)) \<noteq> None)
               \<and> s2 = add_node (resolve s (generateFileName ?full N)) (File sourceCode) s
               \<and> readFile s2 (generateFileName ?full N) = Inr sourceCode)"
  proof
    assume "r = None"
    with t have t': "tryWriteFile ?full sourceCode 1 s = (None, s2)" by simp
    from tryWriteFile_from [OF _ t'] obtain N where
      N: "1 \<le> N" "N \<le> 1000" "lookup s (resolve s (generateFileName ?full N)) = None"
        "\<forall>M. 1 \<le> M \<and> M < N \<longrightarrow> lookup s (resolve s (generateFileName ?full M)) \<noteq> None"
        "writeFile_wx (generateFileName ?full N) sourceCode s = (None, s2)"
      by auto
    from writeFile_wx_created [OF N(5)] readFile_after_create [OF N(5)] N(1-4)
    have "1 \<le> N \<and> N \<le> 1000
               \<and> lookup s (resolve s (generateFileName ?full N)) = None
               \<and> (\<forall>M. 1 \<le> M \<and> M < N \<longrightarrow>
                     lookup s (resolve s (generateFileName ?full M)) \<noteq> None)
               \<and> s2 = add_node (resolve s (generateFileName ?full N)) (File sourceCode) s
               \<and> readFile s2 (generateFileName ?full N) = Inr sourceCode"
      by simp
    then show "\<exists>N. 1 \<le> N \<and> N \<le> 1000
               \<and> lookup s (resolve s (generateFileName ?full N)) = None
               \<and> (\<forall>M. 1 \<le> M \<and> M < N \<longrightarrow>
                     lookup s (resolve s (generateFileName ?full M)) \<noteq> None)
               \<and> s2 = add_node (resolve s (generateFileName ?full N)) (File sourceCode) s
               \<and> readFile s2 (generateFileName ?full N) = Inr sourceCode"
      by blast
  qed
  have first: "r = None \<and> lookup s (resolve s (generateFileName ?full 1)) = None \<longrightarrow>
      s2 = add_node (resolve s (generateFileName ?full 1)) (File sourceCode) s"
  proof
    assume h: "r = None \<and> lookup s (resolve s (generateFileName ?full 1)) = None"
    with created obtain N where
      N: "1 \<le> N" "\<forall>M. 1 \<le> M \<and> M < N \<longrightarrow>
            lookup s (resolve s (generateFileName ?full M)) \<noteq> None"
        "s2 = add_node (resolve s (generateFileName ?full N)) (File sourceCode) s"
      by blast
    have "N = 1"
    proof (rule ccontr)
      assume "N \<noteq> 1"
      with N(1) have "1 \<le> (1::nat) \<and> 1 < N" by arith
      with N(2) have "lookup s (resolve s (generateFileName ?full 1)) \<noteq> None" by blast
      with h show False by simp
    qed
    with N(3) show "s2 = add_node (resolve s (generateFileName ?full 1)) (File sourceCode) s"
      by simp
  qed
  have failed: "r \<noteq> None \<longrightarrow> s2 = s"
  proof
    assume "r \<noteq> None"
    then obtain e where "r = Some e" by auto
    with t have "tryWriteFile ?full sourceCode 1 s = (Some e, s2)" by simp
    then show "s2 = s" by (rule tryWriteFile_failed)
  qed
  have run: "\<forall>p d. readFile s p = Inr d
      \<longrightarrow> readFile (snd (main_write merging outputRoot entries remaps s)) p = Inr d"
  proof (intro allI impI)
    fix p d assume "readFile s p = Inr d"
    with main_write_extends [of s merging outputRoot entries remaps]
    show "readFile (snd (main_write merging outputRoot entries remaps s)) p = Inr d"
      by (rule readFile_extends)
  qed
  from frame created first failed run show ?thesis
    unfolding Wr fst_conv snd_conv by blast
qed

theorem conflict_safety_witness:
  "writeSourceWithMerge ''A.sol'' ''one'' ''out'' \<lparr>cwd = [''w''], nodes = [([''w''], Dir)]\<rparr>
   = (None,
      \<lparr>cwd = [''w''],
       nodes = [([''w''], Dir), ([''w'', ''out''], Dir), ([''w'', ''out'', ''A.sol''], File ''one'')]\<rparr>)
   \<and> writeSourceWithMerge ''A.sol'' ''two'' ''out''
      \<lparr>cwd = [''w''],
       nodes = [([''w''], Dir), ([''w'', ''out''], Dir), ([''w'', ''out'', ''A.sol''], File ''one'')]\<rparr>
   = (None,
      \<lparr>cwd = [''w''],
       nodes = [([''w''], Dir), ([''w'', ''out''], Dir), ([''w'', ''out'', ''A.sol''], File ''one''),
                ([''w'', ''out'', ''A.conflict1.sol''], File ''two'')]\<rparr>)
   \<and> readFile (snd (writeSourceWithMerge ''A.sol'' ''two'' ''out''
      \<lparr>cwd = [''w''],
       nodes = [([''w''], Dir), ([''w'', ''out''], Dir), ([''w'', ''out'', ''A.sol''], File ''one'')]\<rparr>))
       (path_join ''out'' ''A.sol'') = Inr ''one''"
proof -
  let ?E = "\<lparr>cwd = [''w''], nodes = [([''w''], Dir)]\<rparr>"
  let ?S = "\<lparr>cwd = [''w''],
       nodes = [([''w''], Dir), ([''w'', ''out''], Dir), ([''w'', ''out'', ''A.sol''], File ''one'')]\<rparr>"
  let ?T = "\<lparr>cwd = [''w''],
       nodes = [([''w''], Dir), ([''w'', ''out''], Dir), ([''w'', ''out'', ''A.sol''], File ''one''),
                ([''w'', ''out'', ''A.conflict1.sol''], File ''two'')]\<rparr>"
  have first: "writeSourceWithMerge ''A.sol'' ''one'' ''out'' ?E = (None, ?S)"
    by (simp add: write_eval)
  have orig: "readFile ?S (path_join ''out'' ''A.sol'') = Inr ''one''"
    by (simp add: path_eval sys_eval)
  have diff: "''one'' \<noteq> ''two''" by simp
  have dir: "ensureDir (path_dirname (path_join ''out'' ''A.sol'')) ?S = (None, ?S)"
    by (simp add: path_eval sys_eval)
  have second: "writeSourceWithMerge ''A.sol'' ''two'' ''out'' ?S = (None, ?T)"
    by (simp add: write_eval)
  from conflict_safety [OF orig diff dir] orig
  have "readFile (snd (writeSourceWithMerge ''A.sol'' ''two'' ''out'' ?S))
      (path_join ''out'' ''A.sol'') = Inr ''one''"
    by blast
  with first second show ?thesis by blast
qed

end
